theory Spec2Isabelle
  imports Complex_Main "HOL-Library.Char_ord" "HOL-Library.List_Lexorder"
begin

section \<open>Numbers\<close>

text \<open>
  The analytics helpers of the server work on JavaScript numbers, which are IEEE-754
  double-precision values. The means of the buckets and the trend direction depend on
  how their arithmetic is rounded, on overflow and on what a division by zero yields, so
  the grouping helpers and \<open>calculateTrendDirection\<close> are modelled in double
  arithmetic: a number is a finite double (\<open>Fin\<close> of its value, with \<open>Fin 0\<close> for
  the positive zero), the negative zero, an infinity or \<open>NaN\<close>, and every operation is
  the exact operation followed by rounding to the nearest double, ties to even.
  The insight rules use sums and one division of a few column values and compare with
  thresholds; they are written in exact arithmetic on \<^typ>\<open>real\<close>.
\<close>

datatype jsnum = Fin real | NegZero | PosInf | NegInf | NaN

text \<open>The number of binary digits of a natural number.\<close>

fun bitLength :: "nat \<Rightarrow> nat" where
  "bitLength n = (if n = 0 then 0 else Suc (bitLength (n div 2)))"

declare bitLength.simps [simp del]

text \<open>The binary exponent of a positive real \<open>x\<close>: \<open>2 ^ expo x \<le> x < 2 ^ (expo x + 1)\<close>.\<close>

definition expo :: "real \<Rightarrow> int" where
  "expo x =
     (if 1 \<le> x then int (bitLength (nat \<lfloor>x\<rfloor>)) - 1
      else - int (bitLength (nat (\<lceil>1 / x\<rceil> - 1))))"

text \<open>\<open>scaleBy x q\<close> is \<open>x\<close> times two to the power \<open>q\<close>.\<close>

definition scaleBy :: "real \<Rightarrow> int \<Rightarrow> real" where
  "scaleBy x q = (if 0 \<le> q then x * 2 ^ nat q else x / 2 ^ nat (- q))"

definition roundHalfEven :: "real \<Rightarrow> int" where
  "roundHalfEven y =
     (let f = \<lfloor>y\<rfloor>; d = y - of_int f
      in if d < 1 / 2 then f else if 1 / 2 < d then f + 1 else if even f then f else f + 1)"

text \<open>
  The magnitude of the double nearest to a positive real: 53 significant bits, the
  exponent not below -1022 (gradual underflow), no upper limit on the exponent yet.
\<close>

definition roundMagnitude :: "real \<Rightarrow> real" where
  "roundMagnitude x =
     (let e = max (expo x) (- 1022)
      in scaleBy (of_int (roundHalfEven (scaleBy x (52 - e)))) (e - 52))"

text \<open>
  Rounding a real to a double: a magnitude that reaches \<open>2 ^ 1024\<close> overflows to an
  infinity, and a magnitude that rounds to zero keeps the sign.
\<close>

definition toDouble :: "real \<Rightarrow> jsnum" where
  "toDouble x =
     (if x = 0 then Fin 0
      else
        let r = roundMagnitude \<bar>x\<bar>
        in if 2 ^ 1024 \<le> r then (if 0 < x then PosInf else NegInf)
           else if r = 0 then (if 0 < x then Fin 0 else NegZero)
           else Fin (if 0 < x then r else - r))"

definition isNeg :: "jsnum \<Rightarrow> bool" where
  "isNeg a = (case a of Fin r \<Rightarrow> r < 0 | NegZero \<Rightarrow> True | PosInf \<Rightarrow> False
              | NegInf \<Rightarrow> True | NaN \<Rightarrow> False)"

definition isZero :: "jsnum \<Rightarrow> bool" where
  "isZero a = (a = Fin 0 \<or> a = NegZero)"

definition isInf :: "jsnum \<Rightarrow> bool" where
  "isInf a = (a = PosInf \<or> a = NegInf)"

definition zeroOf :: "bool \<Rightarrow> jsnum" where
  "zeroOf neg = (if neg then NegZero else Fin 0)"

definition infOf :: "bool \<Rightarrow> jsnum" where
  "infOf neg = (if neg then NegInf else PosInf)"

definition finVal :: "jsnum \<Rightarrow> real" where
  "finVal a = (case a of Fin r \<Rightarrow> r | _ \<Rightarrow> 0)"

definition jsNeg :: "jsnum \<Rightarrow> jsnum" where
  "jsNeg a = (case a of Fin r \<Rightarrow> (if r = 0 then NegZero else Fin (- r)) | NegZero \<Rightarrow> Fin 0
              | PosInf \<Rightarrow> NegInf | NegInf \<Rightarrow> PosInf | NaN \<Rightarrow> NaN)"

text \<open>
  \<open>a + b\<close>: opposite infinities give \<open>NaN\<close>, a sum that is exactly zero is the positive
  zero unless both operands are the negative zero.
\<close>

definition jsAdd :: "jsnum \<Rightarrow> jsnum \<Rightarrow> jsnum" where
  "jsAdd a b =
     (if a = NaN \<or> b = NaN then NaN
      else if isInf a \<and> isInf b then (if a = b then a else NaN)
      else if isInf a then a
      else if isInf b then b
      else if a = NegZero then b
      else if b = NegZero then a
      else if finVal a + finVal b = 0 then Fin 0
      else toDouble (finVal a + finVal b))"

definition jsSub :: "jsnum \<Rightarrow> jsnum \<Rightarrow> jsnum" where
  "jsSub a b = jsAdd a (jsNeg b)"

text \<open>
  \<open>a / b\<close>: \<open>0 / 0\<close> and \<open>Infinity / Infinity\<close> are \<open>NaN\<close>; otherwise a zero divisor
  or an infinite dividend gives an infinity, an infinite divisor or a zero dividend gives
  a zero, each with the sign of the quotient.
\<close>

definition jsDiv :: "jsnum \<Rightarrow> jsnum \<Rightarrow> jsnum" where
  "jsDiv a b =
     (if a = NaN \<or> b = NaN then NaN
      else if (isInf a \<and> isInf b) \<or> (isZero a \<and> isZero b) then NaN
      else if isInf a \<or> isZero b then infOf (isNeg a \<noteq> isNeg b)
      else if isInf b \<or> isZero a then zeroOf (isNeg a \<noteq> isNeg b)
      else toDouble (finVal a / finVal b))"

definition jsMul :: "jsnum \<Rightarrow> jsnum \<Rightarrow> jsnum" where
  "jsMul a b =
     (if a = NaN \<or> b = NaN then NaN
      else if (isInf a \<and> isZero b) \<or> (isZero a \<and> isInf b) then NaN
      else if isInf a \<or> isInf b then infOf (isNeg a \<noteq> isNeg b)
      else if isZero a \<or> isZero b then zeroOf (isNeg a \<noteq> isNeg b)
      else toDouble (finVal a * finVal b))"

text \<open>Comparisons with a finite number; every comparison with \<open>NaN\<close> is false.\<close>

definition jsGt :: "jsnum \<Rightarrow> real \<Rightarrow> bool" where
  "jsGt x c = (case x of Fin r \<Rightarrow> r > c | NegZero \<Rightarrow> 0 > c | PosInf \<Rightarrow> True
               | NegInf \<Rightarrow> False | NaN \<Rightarrow> False)"

definition jsLt :: "jsnum \<Rightarrow> real \<Rightarrow> bool" where
  "jsLt x c = (case x of Fin r \<Rightarrow> r < c | NegZero \<Rightarrow> 0 < c | PosInf \<Rightarrow> False
               | NegInf \<Rightarrow> True | NaN \<Rightarrow> False)"

section \<open>Arrays\<close>

text \<open>
  \<open>Array.prototype.slice(start, end)\<close>: a negative index counts from the end of the
  array, and both indices are clamped to the array.
\<close>

definition relIndex :: "int \<Rightarrow> 'a list \<Rightarrow> nat" where
  "relIndex i xs =
     (if i < 0 then nat (max (int (length xs) + i) 0) else min (nat i) (length xs))"

definition jsSlice :: "int \<Rightarrow> int \<Rightarrow> 'a list \<Rightarrow> 'a list" where
  "jsSlice start end xs = take (relIndex end xs - relIndex start xs) (drop (relIndex start xs) xs)"

text \<open>\<open>slice(start)\<close>, with the end left out, runs to the end of the array.\<close>

definition jsSliceFrom :: "int \<Rightarrow> 'a list \<Rightarrow> 'a list" where
  "jsSliceFrom start xs = drop (relIndex start xs) xs"

text \<open>\<open>values.reduce((sum, val) => sum + val, 0)\<close>\<close>

definition reduceSum :: "real list \<Rightarrow> real" where
  "reduceSum vs = foldl (\<lambda>sum val. sum + val) 0 vs"

text \<open>The same reduction in double arithmetic, over the values of buckets and samples.\<close>

definition reduceSumDouble :: "jsnum list \<Rightarrow> jsnum" where
  "reduceSumDouble vs = foldl (\<lambda>sum val. jsAdd sum val) (Fin 0) vs"

section \<open>Buckets\<close>

text \<open>
  The objects returned by the grouping helpers and read by \<open>calculateTrendDirection\<close>.
  The \<open>timestamp\<close> property holds the sample's own time value for the \<open>raw\<close> interval
  and an ISO-8601 key string otherwise. The \<open>raw\<close> objects carry no \<open>count\<close>
  property, hence the option. The field \<open>val\<close> is the property \<open>value\<close>.
\<close>

datatype tstamp = TimeValue int | IsoKey string

record bucket =
  timestamp :: tstamp
  val :: jsnum
  count :: "nat option"

section \<open>Trend direction\<close>

datatype direction = improving | declining | stable

text \<open>\<open>values.reduce((sum, val) => sum + val, 0) / values.length\<close>\<close>

definition averageDouble :: "jsnum list \<Rightarrow> jsnum" where
  "averageDouble vs = jsDiv (reduceSumDouble vs) (Fin (real (length vs)))"

definition calculateTrendDirection :: "bucket list \<Rightarrow> direction" where
  "calculateTrendDirection data =
     (if length data < 2 then stable
      else
        let recentValues = map val (jsSliceFrom (-5) data);
            olderValues = map val (jsSlice 0 (min 5 (int (length data) - 5)) data)
        in if length recentValues = 0 \<or> length olderValues = 0 then stable
           else
             let recentAvg = averageDouble recentValues;
                 olderAvg = averageDouble olderValues;
                 change = jsMul (jsDiv (jsSub recentAvg olderAvg) olderAvg) (Fin 100)
             in if jsGt change 5 then improving
                else if jsLt change (-5) then declining
                else stable)"

text \<open>
  The windows and the percent change as the specification words them: the recent window
  is the last \<open>min(5, N)\<close> buckets, the older window the first \<open>min(5, N - 5)\<close> buckets
  (none when \<open>N \<le> 5\<close>); \<open>specRecent\<close> and \<open>specOlder\<close> are their values as real
  numbers, \<open>percentChange\<close> is the change in exact arithmetic, \<open>percentChangeDouble\<close>
  the same formula in double arithmetic.
\<close>

definition mean :: "real list \<Rightarrow> real" where
  "mean vs = sum_list vs / real (length vs)"


definition olderWindow :: "bucket list \<Rightarrow> jsnum list" where
  "olderWindow data = map val (take (min 5 (length data - 5)) data)"


definition specOlder :: "bucket list \<Rightarrow> real list" where
  "specOlder data = map finVal (olderWindow data)"




text \<open>A bucket holding a value, for writing down value sequences.\<close>

definition bk :: "real \<Rightarrow> bucket" where
  "bk v = \<lparr>timestamp = IsoKey [], val = Fin v, count = Some 1\<rparr>"

section \<open>Insights\<close>

text \<open>
  The rows read by \<open>generateInsights\<close>: the two nullable columns of a trip and of an
  OBD record that the function looks at.
\<close>

record trip =
  ecoScore :: "real option"
  efficiency :: "real option"

record obd =
  engineRPM :: "real option"
  throttlePosition :: "real option"

datatype insight_type = warning | success | tip | info

datatype priority = low | medium | high

record insight =
  itype :: insight_type
  title :: string
  message :: string
  priority :: priority

definition lowEcoScore :: insight where
  "lowEcoScore = \<lparr>itype = warning, title = ''Low Eco Score'',
     message = ''Your average eco score is below 60. Focus on smooth acceleration and braking to improve.'',
     priority = high\<rparr>"

definition excellentDriving :: insight where
  "excellentDriving = \<lparr>itype = success, title = ''Excellent Driving'',
     message = ''Great job! Your eco score is consistently high. Keep up the good driving habits.'',
     priority = low\<rparr>"

definition highFuelConsumption :: insight where
  "highFuelConsumption = \<lparr>itype = warning, title = ''High Fuel Consumption'',
     message = ''Your fuel efficiency is above 10 L/100km. Consider adjusting your driving style.'',
     priority = medium\<rparr>"

definition highRPMDriving :: insight where
  "highRPMDriving = \<lparr>itype = tip, title = ''High RPM Driving'',
     message = ''You're frequently driving at high RPM. Shift to higher gears earlier to improve efficiency.'',
     priority = medium\<rparr>"

definition aggressiveAcceleration :: insight where
  "aggressiveAcceleration = \<lparr>itype = tip, title = ''Aggressive Acceleration'',
     message = ''Gentle acceleration can improve fuel efficiency by up to 20%.'',
     priority = medium\<rparr>"

definition goodProgress :: insight where
  "goodProgress = \<lparr>itype = info, title = ''Good Progress'',
     message = ''Your driving patterns look good. Continue monitoring for further improvements.'',
     priority = low\<rparr>"

text \<open>\<open>xs.filter(s => s !== null)\<close> on a column of nullable numbers.\<close>

fun nonNull :: "'a option list \<Rightarrow> 'a list" where
  "nonNull [] = []"
| "nonNull (None # xs) = nonNull xs"
| "nonNull (Some x # xs) = x # nonNull xs"

text \<open>
  \<open>d.engineRPM && d.engineRPM > 3000\<close>: the left operand is falsy for \<open>null\<close> and
  for \<open>0\<close>, and then the conjunction is falsy.
\<close>

definition truthyAndGt :: "real option \<Rightarrow> real \<Rightarrow> bool" where
  "truthyAndGt x c = (case x of None \<Rightarrow> False | Some r \<Rightarrow> r \<noteq> 0 \<and> r > c)"

text \<open>The four blocks of \<open>generateInsights\<close>, each pushing onto the array built so far.\<close>

definition ecoRule :: "trip list \<Rightarrow> insight list \<Rightarrow> insight list" where
  "ecoRule trips insights =
     (if length trips > 0 then
        let ecoScores = nonNull (map ecoScore trips)
        in if length ecoScores > 0 then
             let avgEcoScore = reduceSum ecoScores / real (length ecoScores)
             in if avgEcoScore < 60 then insights @ [lowEcoScore]
                else if avgEcoScore > 80 then insights @ [excellentDriving]
                else insights
           else insights
      else insights)"

definition efficiencyRule :: "trip list \<Rightarrow> insight list \<Rightarrow> insight list" where
  "efficiencyRule trips insights =
     (if length trips > 0 then
        let efficiencies = nonNull (map efficiency trips)
        in if length efficiencies > 0 then
             let avgEfficiency = reduceSum efficiencies / real (length efficiencies)
             in if avgEfficiency > 10 then insights @ [highFuelConsumption] else insights
           else insights
      else insights)"

definition highRPMCount :: "obd list \<Rightarrow> nat" where
  "highRPMCount obdData = length (filter (\<lambda>d. truthyAndGt (engineRPM d) 3000) obdData)"

definition aggressiveThrottleCount :: "obd list \<Rightarrow> nat" where
  "aggressiveThrottleCount obdData = length (filter (\<lambda>d. truthyAndGt (throttlePosition d) 80) obdData)"

definition obdRule :: "obd list \<Rightarrow> insight list \<Rightarrow> insight list" where
  "obdRule obdData insights =
     (if length obdData > 0 then
        let highRPMPercentage = (real (highRPMCount obdData) / real (length obdData)) * 100;
            insights1 = (if highRPMPercentage > 30 then insights @ [highRPMDriving] else insights);
            aggressiveThrottlePercentage =
              (real (aggressiveThrottleCount obdData) / real (length obdData)) * 100
        in if aggressiveThrottlePercentage > 20 then insights1 @ [aggressiveAcceleration]
           else insights1
      else insights)"

definition fallbackRule :: "insight list \<Rightarrow> insight list" where
  "fallbackRule insights = (if length insights = 0 then insights @ [goodProgress] else insights)"

text \<open>What rules 1 to 4 have pushed when the fallback is reached.\<close>

definition specificInsights :: "trip list \<Rightarrow> obd list \<Rightarrow> insight list" where
  "specificInsights trips obdData = obdRule obdData (efficiencyRule trips (ecoRule trips []))"

definition generateInsights :: "trip list \<Rightarrow> obd list \<Rightarrow> insight list" where
  "generateInsights trips obdData = fallbackRule (specificInsights trips obdData)"

text \<open>
  The two ratios as the specification words them: the denominator counts the samples
  whose field is not null.
\<close>

definition specHighRPMRatio :: "obd list \<Rightarrow> real" where
  "specHighRPMRatio obdData =
     real (length (filter (\<lambda>d. case engineRPM d of None \<Rightarrow> False | Some r \<Rightarrow> r > 3000) obdData))
       / real (length (nonNull (map engineRPM obdData)))"

definition specAggressiveThrottleRatio :: "obd list \<Rightarrow> real" where
  "specAggressiveThrottleRatio obdData =
     real (length (filter (\<lambda>d. case throttlePosition d of None \<Rightarrow> False | Some r \<Rightarrow> r > 80) obdData))
       / real (length (nonNull (map throttlePosition obdData)))"

text \<open>A rule has fired when its insight is in the result.\<close>

definition fired :: "insight \<Rightarrow> insight list \<Rightarrow> bool" where
  "fired i insights = (i \<in> set insights)"

section \<open>Dates\<close>

text \<open>
  The grouping helpers go through the built-in \<open>Date\<close>. A time value is the number of
  milliseconds since 1970-01-01T00:00:00Z; the functions below are the abstract
  operations of the ECMAScript language specification (Day, TimeWithinDay, DayFromYear,
  YearFromTime, MonthFromTime, DateFromTime, WeekDay, MakeDay, MakeDate, TimeClip) on
  integer time values. A \<open>Date\<close> whose time value is \<open>NaN\<close> (Invalid Date) is \<open>None\<close>.
\<close>

definition msPerDay :: int where
  "msPerDay = 86400000"

definition msPerHour :: int where
  "msPerHour = 3600000"

definition Day :: "int \<Rightarrow> int" where
  "Day t = t div msPerDay"

definition TimeWithinDay :: "int \<Rightarrow> int" where
  "TimeWithinDay t = t mod msPerDay"

definition DayFromYear :: "int \<Rightarrow> int" where
  "DayFromYear y = 365 * (y - 1970) + (y - 1969) div 4 - (y - 1901) div 100 + (y - 1601) div 400"

text \<open>
  The year of a day number: the largest \<open>y\<close> with \<open>DayFromYear y \<le> d\<close>. It is computed
  from the mean length of a year, 146097 / 400 days, and corrected by at most one.
\<close>

definition YearFromDay :: "int \<Rightarrow> int" where
  "YearFromDay d =
     (let y = 1970 + (400 * d) div 146097
      in if d < DayFromYear y then y - 1
         else if DayFromYear (y + 1) \<le> d then y + 1
         else y)"

definition YearFromTime :: "int \<Rightarrow> int" where
  "YearFromTime t = YearFromDay (Day t)"

definition InLeapYear :: "int \<Rightarrow> int" where
  "InLeapYear y = (if DayFromYear (y + 1) - DayFromYear y = 366 then 1 else 0)"

definition DayWithinYear :: "int \<Rightarrow> int" where
  "DayWithinYear t = Day t - DayFromYear (YearFromTime t)"

text \<open>The day within the year on which month \<open>m\<close> (0 to 11) starts; \<open>l\<close> is 1 in a leap year.\<close>

definition monthStart :: "int \<Rightarrow> int \<Rightarrow> int" where
  "monthStart l m =
     (if m = 0 then 0 else if m = 1 then 31 else if m = 2 then 59 + l
      else if m = 3 then 90 + l else if m = 4 then 120 + l else if m = 5 then 151 + l
      else if m = 6 then 181 + l else if m = 7 then 212 + l else if m = 8 then 243 + l
      else if m = 9 then 273 + l else if m = 10 then 304 + l else 334 + l)"

definition monthOfDay :: "int \<Rightarrow> int \<Rightarrow> int" where
  "monthOfDay l d =
     (if d < 31 then 0 else if d < 59 + l then 1 else if d < 90 + l then 2
      else if d < 120 + l then 3 else if d < 151 + l then 4 else if d < 181 + l then 5
      else if d < 212 + l then 6 else if d < 243 + l then 7 else if d < 273 + l then 8
      else if d < 304 + l then 9 else if d < 334 + l then 10 else 11)"

definition MonthFromTime :: "int \<Rightarrow> int" where
  "MonthFromTime t = monthOfDay (InLeapYear (YearFromTime t)) (DayWithinYear t)"

definition DateFromTime :: "int \<Rightarrow> int" where
  "DateFromTime t =
     DayWithinYear t - monthStart (InLeapYear (YearFromTime t)) (MonthFromTime t) + 1"

definition WeekDay :: "int \<Rightarrow> int" where
  "WeekDay t = (Day t + 4) mod 7"

definition HourFromTime :: "int \<Rightarrow> int" where
  "HourFromTime t = (t div msPerHour) mod 24"

definition MinFromTime :: "int \<Rightarrow> int" where
  "MinFromTime t = (t div 60000) mod 60"

definition SecFromTime :: "int \<Rightarrow> int" where
  "SecFromTime t = (t div 1000) mod 60"

definition msFromTime :: "int \<Rightarrow> int" where
  "msFromTime t = t mod 1000"

definition MakeDay :: "int \<Rightarrow> int \<Rightarrow> int \<Rightarrow> int" where
  "MakeDay year month date =
     (let ym = year + month div 12; mn = month mod 12
      in DayFromYear ym + monthStart (InLeapYear ym) mn + date - 1)"

definition MakeDate :: "int \<Rightarrow> int \<Rightarrow> int" where
  "MakeDate day time = day * msPerDay + time"

definition TimeClip :: "int \<Rightarrow> int option" where
  "TimeClip t = (if \<bar>t\<bar> > 8640000000000000 then None else Some t)"

text \<open>
  Local time. The offset \<open>tz\<close> of the host's zone from UTC, in milliseconds, is a
  parameter of everything that reads local fields; it is taken to be constant (a zone
  without daylight saving changes).
\<close>

definition LocalTime :: "int \<Rightarrow> int \<Rightarrow> int" where
  "LocalTime tz t = t + tz"

definition UTC :: "int \<Rightarrow> int \<Rightarrow> int" where
  "UTC tz t = t - tz"

text \<open>\<open>new Date(value)\<close> for a time value, and the getters used by the source.\<close>

definition newDate :: "int \<Rightarrow> int option" where
  "newDate v = TimeClip v"

definition getFullYear :: "int \<Rightarrow> int \<Rightarrow> int" where
  "getFullYear tz t = YearFromTime (LocalTime tz t)"

definition getMonth :: "int \<Rightarrow> int \<Rightarrow> int" where
  "getMonth tz t = MonthFromTime (LocalTime tz t)"

definition getDate :: "int \<Rightarrow> int \<Rightarrow> int" where
  "getDate tz t = DateFromTime (LocalTime tz t)"

definition getDay :: "int \<Rightarrow> int \<Rightarrow> int" where
  "getDay tz t = WeekDay (LocalTime tz t)"

definition getHours :: "int \<Rightarrow> int \<Rightarrow> int" where
  "getHours tz t = HourFromTime (LocalTime tz t)"

text \<open>
  \<open>new Date(year, month, date, hours)\<close>: the fields are local time, and a year from 0 to
  99 stands for 1900 to 1999.
\<close>

definition newDateFields :: "int \<Rightarrow> int \<Rightarrow> int \<Rightarrow> int \<Rightarrow> int \<Rightarrow> int option" where
  "newDateFields tz year month date hours =
     (let yr = (if 0 \<le> year \<and> year \<le> 99 then 1900 + year else year)
      in TimeClip (UTC tz (MakeDate (MakeDay yr month date) (hours * msPerHour))))"

text \<open>\<open>setDate(date)\<close> on a valid \<open>Date\<close>: the day of the month in local time is replaced.\<close>

definition setDate :: "int \<Rightarrow> int \<Rightarrow> int \<Rightarrow> int option" where
  "setDate tz t date =
     (let l = LocalTime tz t
      in TimeClip (UTC tz (MakeDate (MakeDay (YearFromTime l) (MonthFromTime l) date)
                                    (TimeWithinDay l))))"

text \<open>Decimal digits, padded with zeros to a fixed width.\<close>

definition digitChar :: "nat \<Rightarrow> char" where
  "digitChar d = char_of (48 + d)"

fun digits :: "nat \<Rightarrow> nat \<Rightarrow> string" where
  "digits 0 n = []"
| "digits (Suc k) n = digits k (n div 10) @ [digitChar (n mod 10)]"

definition isoYear :: "int \<Rightarrow> string" where
  "isoYear y =
     (if 0 \<le> y \<and> y \<le> 9999 then digits 4 (nat y)
      else (if y < 0 then ''-'' else ''+'') @ digits 6 (nat \<bar>y\<bar>))"

datatype error = RangeError

text \<open>
  \<open>toISOString()\<close>: \<open>YYYY-MM-DDTHH:mm:ss.sssZ\<close> in UTC, with a sign and six digits for
  a year outside 0 to 9999, and a \<open>RangeError\<close> for an Invalid Date.
\<close>

definition isoString :: "int \<Rightarrow> string" where
  "isoString t =
     isoYear (YearFromTime t) @ ''-'' @ digits 2 (nat (MonthFromTime t + 1)) @ ''-''
       @ digits 2 (nat (DateFromTime t)) @ ''T'' @ digits 2 (nat (HourFromTime t)) @ '':''
       @ digits 2 (nat (MinFromTime t)) @ '':'' @ digits 2 (nat (SecFromTime t)) @ ''.''
       @ digits 3 (nat (msFromTime t)) @ ''Z''"

definition toISOString :: "int option \<Rightarrow> error + string" where
  "toISOString date = (case date of None \<Rightarrow> Inl RangeError | Some t \<Rightarrow> Inr (isoString t))"

section \<open>Grouping by interval\<close>

text \<open>
  A row handed to the grouping helpers: its time (the property \<open>startTime\<close>, in
  \<open>groupDataByInterval\<close> the property \<open>timestamp\<close>) as a time value, and the value of
  the selected column, \<open>point[metric]\<close>, which the query has filtered to be not null.
\<close>

record point =
  startTime :: int
  metricValue :: jsnum

text \<open>
  The key computed in the body of \<open>forEach\<close> in \<open>groupTrendsByInterval\<close>. With an
  Invalid Date every branch ends in \<open>toISOString\<close> of an Invalid Date (the getters
  return \<open>NaN\<close>, and so do the dates built from them), which throws.
\<close>

definition trendKey :: "int \<Rightarrow> string \<Rightarrow> int \<Rightarrow> error + string" where
  "trendKey tz interval v =
     (case newDate v of
        None \<Rightarrow> Inl RangeError
      | Some date \<Rightarrow>
          if interval = ''1h'' then
            map_sum id (\<lambda>s. jsSlice 0 13 s @ '':00:00.000Z'') (toISOString (Some date))
          else if interval = ''6h'' then
            let hour = (getHours tz date div 6) * 6
            in toISOString (newDateFields tz (getFullYear tz date) (getMonth tz date)
                 (getDate tz date) hour)
          else if interval = ''1d'' then
            map_sum id (\<lambda>s. jsSlice 0 10 s @ ''T00:00:00.000Z'') (toISOString (Some date))
          else if interval = ''1w'' then
            let weekStart = setDate tz date (getDate tz date - getDay tz date)
            in map_sum id (\<lambda>s. jsSlice 0 10 s @ ''T00:00:00.000Z'') (toISOString weekStart)
          else
            map_sum id (\<lambda>s. jsSlice 0 10 s @ ''T00:00:00.000Z'') (toISOString (Some date)))"

text \<open>The same in \<open>groupDataByInterval\<close>: no weekly case, and the default is the hour.\<close>

definition dataKey :: "int \<Rightarrow> string \<Rightarrow> int \<Rightarrow> error + string" where
  "dataKey tz interval v =
     (case newDate v of
        None \<Rightarrow> Inl RangeError
      | Some date \<Rightarrow>
          if interval = ''1h'' then
            map_sum id (\<lambda>s. jsSlice 0 13 s @ '':00:00.000Z'') (toISOString (Some date))
          else if interval = ''6h'' then
            let hour = (getHours tz date div 6) * 6
            in toISOString (newDateFields tz (getFullYear tz date) (getMonth tz date)
                 (getDate tz date) hour)
          else if interval = ''1d'' then
            map_sum id (\<lambda>s. jsSlice 0 10 s @ ''T00:00:00.000Z'') (toISOString (Some date))
          else
            map_sum id (\<lambda>s. jsSlice 0 13 s @ '':00:00.000Z'') (toISOString (Some date)))"

text \<open>
  The object \<open>grouped\<close>: its own properties in insertion order, which is the order of
  \<open>Object.entries\<close> for keys that are not array indices. \<open>pushValue\<close> is
  \<open>if (!grouped[key]) grouped[key] = []; grouped[key].push(v)\<close>.
\<close>

type_synonym grouped = "(string \<times> jsnum list) list"

fun pushValue :: "string \<Rightarrow> jsnum \<Rightarrow> grouped \<Rightarrow> grouped" where
  "pushValue key v [] = [(key, [v])]"
| "pushValue key v ((k, vs) # g) =
     (if k = key then (k, vs @ [v]) # g else (k, vs) # pushValue key v g)"

text \<open>\<open>data.forEach\<close>: an exception in the body ends the loop and the function.\<close>

fun forEachPoint :: "(int \<Rightarrow> error + string) \<Rightarrow> point list \<Rightarrow> grouped \<Rightarrow> error + grouped" where
  "forEachPoint keyOf [] g = Inr g"
| "forEachPoint keyOf (p # ps) g =
     (case keyOf (startTime p) of
        Inl e \<Rightarrow> Inl e
      | Inr key \<Rightarrow> forEachPoint keyOf ps (pushValue key (metricValue p) g))"

definition rawBucket :: "point \<Rightarrow> bucket" where
  "rawBucket p = \<lparr>timestamp = TimeValue (startTime p), val = metricValue p, count = None\<rparr>"

definition entryBucket :: "string \<times> jsnum list \<Rightarrow> bucket" where
  "entryBucket e =
     (case e of (ts, values) \<Rightarrow>
        \<lparr>timestamp = IsoKey ts,
         val = jsDiv (reduceSumDouble values) (Fin (real (length values))),
         count = Some (length values)\<rparr>)"

definition groupTrendsByInterval :: "int \<Rightarrow> point list \<Rightarrow> string \<Rightarrow> error + bucket list" where
  "groupTrendsByInterval tz data interval =
     (if interval = ''raw'' then Inr (map rawBucket data)
      else case forEachPoint (trendKey tz interval) data [] of
             Inl e \<Rightarrow> Inl e
           | Inr g \<Rightarrow> Inr (map entryBucket g))"

definition groupDataByInterval :: "int \<Rightarrow> point list \<Rightarrow> string \<Rightarrow> error + bucket list" where
  "groupDataByInterval tz data interval =
     (if interval = ''raw'' then Inr (map rawBucket data)
      else case forEachPoint (dataKey tz interval) data [] of
             Inl e \<Rightarrow> Inl e
           | Inr g \<Rightarrow> Inr (map entryBucket g))"

text \<open>
  The instants that the keys stand for, in the words of the specification: the time
  floored to the start of its UTC hour and of its UTC day, to the start of its six-hour
  block of the local day, and to the start of the UTC day of the week's first day, where
  the week and its first day are read off the local calendar as the source does.
\<close>

definition hourStart :: "int \<Rightarrow> int" where
  "hourStart t = t - t mod msPerHour"

definition dayStart :: "int \<Rightarrow> int" where
  "dayStart t = t - t mod msPerDay"

definition sixHourStart :: "int \<Rightarrow> int \<Rightarrow> int" where
  "sixHourStart tz t = UTC tz (LocalTime tz t - LocalTime tz t mod (6 * msPerHour))"

definition weekStart :: "int \<Rightarrow> int \<Rightarrow> int" where
  "weekStart tz t = dayStart (t - WeekDay (LocalTime tz t) * msPerDay)"

text \<open>
  The time values whose year is written with four digits by \<open>toISOString\<close>, the time
  values of telemetry (from 1970-01-01T00:00:00.000Z to 9999-12-31T23:59:59.999Z), and
  the offsets a host zone can have (less than a day).
\<close>

definition fourDigitYear :: "int \<Rightarrow> bool" where
  "fourDigitYear t = (0 \<le> YearFromTime t \<and> YearFromTime t \<le> 9999)"

definition telemetryTime :: "int \<Rightarrow> bool" where
  "telemetryTime t = (0 \<le> t \<and> t \<le> 253402300799999)"

definition hostZone :: "int \<Rightarrow> bool" where
  "hostZone tz = (\<bar>tz\<bar> < msPerDay)"

text \<open>The key and the count of a bucket produced by grouping.\<close>

definition bucketKey :: "bucket \<Rightarrow> string" where
  "bucketKey b = (case timestamp b of IsoKey s \<Rightarrow> s | TimeValue t \<Rightarrow> [])"

definition bucketCount :: "bucket \<Rightarrow> nat" where
  "bucketCount b = (case count b of Some n \<Rightarrow> n | None \<Rightarrow> 0)"

text \<open>
  The loop when no key computation throws, and the values an object holds under a key
  (none when the key is not a property).
\<close>

definition pushAll :: "(int \<Rightarrow> string) \<Rightarrow> grouped \<Rightarrow> point list \<Rightarrow> grouped" where
  "pushAll key g ps = foldl (\<lambda>g p. pushValue (key (startTime p)) (metricValue p) g) g ps"

definition valuesOf :: "grouped \<Rightarrow> string \<Rightarrow> jsnum list" where
  "valuesOf g k = (case map_of g k of None \<Rightarrow> [] | Some vs \<Rightarrow> vs)"

text \<open>The date part of \<open>toISOString\<close>.\<close>

definition isoDate :: "int \<Rightarrow> string" where
  "isoDate t = isoYear (YearFromTime t) @ ''-'' @ digits 2 (nat (MonthFromTime t + 1)) @ ''-''
       @ digits 2 (nat (DateFromTime t))"

text \<open>The key that a key computation has returned (empty when it has thrown).\<close>

definition keyString :: "error + string \<Rightarrow> string" where
  "keyString r = (case r of Inr k \<Rightarrow> k | Inl e \<Rightarrow> [])"

text \<open>The instant a row's key stands for, by interval token; any other token is the day.\<close>

definition keyInstant :: "int \<Rightarrow> string \<Rightarrow> int \<Rightarrow> int" where
  "keyInstant tz interval t =
     (if interval = ''1h'' then hourStart t
      else if interval = ''6h'' then sixHourStart tz t
      else if interval = ''1w'' then weekStart tz t
      else dayStart t)"

text \<open>
  Three rows on 2024-01-15, at 10:15, 10:45 and 11:15 UTC.
\<close>

definition threeSamples :: "point list" where
  "threeSamples =
     [\<lparr>startTime = 1705313700000, metricValue = Fin 10\<rparr>,
      \<lparr>startTime = 1705315500000, metricValue = Fin 20\<rparr>,
      \<lparr>startTime = 1705317300000, metricValue = Fin 40\<rparr>]"

text \<open>The telemetry rows used below to show where the two readings of the ratios part.\<close>

definition sparseTelemetry :: "obd list" where
  "sparseTelemetry =
     [\<lparr>engineRPM = Some 4000, throttlePosition = Some 90\<rparr>,
      \<lparr>engineRPM = None, throttlePosition = None\<rparr>,
      \<lparr>engineRPM = None, throttlePosition = None\<rparr>,
      \<lparr>engineRPM = None, throttlePosition = None\<rparr>,
      \<lparr>engineRPM = None, throttlePosition = None\<rparr>,
      \<lparr>engineRPM = None, throttlePosition = None\<rparr>,
      \<lparr>engineRPM = None, throttlePosition = None\<rparr>,
      \<lparr>engineRPM = None, throttlePosition = None\<rparr>]"

section \<open>Properties of the trend direction\<close>

lemma foldl_add_sum: "foldl (\<lambda>sum val. sum + val) a vs = a + sum_list vs" for a :: real
  by (induction vs arbitrary: a) simp_all

lemma reduceSum_sum_list: "reduceSum vs = sum_list vs"
  by (simp add: reduceSum_def foldl_add_sum)

lemma bitLength_0: "bitLength 0 = 0"
  by (simp add: bitLength.simps)

lemma bitLength_pos: "0 < n \<Longrightarrow> bitLength n = Suc (bitLength (n div 2))"
  by (subst bitLength.simps) simp

lemmas double_eval_defs = toDouble_def roundMagnitude_def roundHalfEven_def scaleBy_def expo_def
  bitLength_0 bitLength_pos Let_def

lemmas double_op_defs = jsAdd_def jsSub_def jsNeg_def jsDiv_def jsMul_def jsGt_def jsLt_def
  isNeg_def isZero_def isInf_def zeroOf_def infOf_def finVal_def

text \<open>The doubles that the examples below go through.\<close>

lemma toDouble_small:
  "toDouble 0 = Fin 0" "toDouble 1 = Fin 1" "toDouble 2 = Fin 2" "toDouble 3 = Fin 3"
  "toDouble 4 = Fin 4" "toDouble 5 = Fin 5"
  by (simp_all add: double_eval_defs)

lemma toDouble_bucket:
  "toDouble 7 = Fin 7" "toDouble 10 = Fin 10" "toDouble 15 = Fin 15" "toDouble 30 = Fin 30"
  "toDouble 40 = Fin 40"
  by (simp_all add: double_eval_defs)

lemmas trend_eval_defs = calculateTrendDirection_def averageDouble_def reduceSumDouble_def
  bk_def jsSlice_def jsSliceFrom_def relIndex_def double_op_defs Let_def

text \<open>
  C1. The claim: whenever there are at least two buckets and the older window is not
  empty and has mean exactly 0, the direction is stable. The source divides by the older
  mean without testing it. On the six values 0, 1, 1, 1, 1, 1 the older window is the
  single value 0, the recent mean is 1, the quotient is \<open>Infinity\<close>, and the direction
  returned is improving.
\<close>

theorem trend_zero_older_mean_not_stable:
  "2 \<le> length (map bk [0, 1, 1, 1, 1, 1])
   \<and> specOlder (map bk [0, 1, 1, 1, 1, 1]) = [0]
   \<and> mean (specOlder (map bk [0, 1, 1, 1, 1, 1])) = 0
   \<and> calculateTrendDirection (map bk [0, 1, 1, 1, 1, 1]) = improving"
  by (simp add: trend_eval_defs toDouble_small specOlder_def olderWindow_def mean_def)





text \<open>The operations on finite doubles.\<close>

lemma jsAdd_Fin: "jsAdd (Fin x) (Fin y) = (if x + y = 0 then Fin 0 else toDouble (x + y))"
  by (simp add: jsAdd_def isInf_def finVal_def)


lemma jsDiv_Fin: "x \<noteq> 0 \<Longrightarrow> y \<noteq> 0 \<Longrightarrow> jsDiv (Fin x) (Fin y) = toDouble (x / y)"
  by (simp add: jsDiv_def isInf_def isZero_def finVal_def)




























section \<open>Properties of the insights\<close>

lemmas insight_defs = lowEcoScore_def excellentDriving_def highFuelConsumption_def
  highRPMDriving_def aggressiveAcceleration_def goodProgress_def

lemmas insight_eval_defs = generateInsights_def specificInsights_def fallbackRule_def
  obdRule_def ecoRule_def efficiencyRule_def highRPMCount_def aggressiveThrottleCount_def
  truthyAndGt_def reduceSum_def fired_def Let_def

text \<open>The truthiness test of the source's filters adds nothing to a positive threshold.\<close>

lemma truthyAndGt_pos: "0 \<le> c \<Longrightarrow> truthyAndGt x c = (\<exists>r. x = Some r \<and> r > c)"
  by (cases x) (auto simp: truthyAndGt_def)

lemma ecoRule_cases:
  "ecoRule trips ins = ins \<or> ecoRule trips ins = ins @ [lowEcoScore]
   \<or> ecoRule trips ins = ins @ [excellentDriving]"
  by (simp add: ecoRule_def Let_def)

lemma efficiencyRule_cases:
  "efficiencyRule trips ins = ins \<or> efficiencyRule trips ins = ins @ [highFuelConsumption]"
  by (simp add: efficiencyRule_def Let_def)

lemma obdRule_eq:
  "obdRule obdData ins =
     ins @ (if obdData \<noteq> [] \<and> real (highRPMCount obdData) / real (length obdData) > 30 / 100
            then [highRPMDriving] else [])
         @ (if obdData \<noteq> [] \<and> real (aggressiveThrottleCount obdData) / real (length obdData) > 20 / 100
            then [aggressiveAcceleration] else [])"
  by (auto simp: obdRule_def Let_def field_simps)

lemmas insight_struct_defs = generateInsights_def specificInsights_def fallbackRule_def
  obdRule_eq fired_def ecoRule_def efficiencyRule_def Let_def insight_defs

text \<open>
  C2, as claimed: with at least one telemetry sample, the high-RPM rule fires exactly
  when the samples above 3000 RPM are more than 0.30 of the samples whose RPM is not null,
  and the throttle rule likewise with 80 and 0.20. The source divides by the number of
  all telemetry rows. On eight rows of which one has RPM 4000 and throttle 90 and seven
  have both fields null, the claimed ratios are 1 and both rules would fire; the source
  computes 12.5 percent twice and neither rule fires.
\<close>

theorem insight_ratio_non_null_counterexample:
  "sparseTelemetry \<noteq> []
   \<and> specHighRPMRatio sparseTelemetry > 30 / 100
   \<and> \<not> fired highRPMDriving (generateInsights [] sparseTelemetry)
   \<and> specAggressiveThrottleRatio sparseTelemetry > 20 / 100
   \<and> \<not> fired aggressiveAcceleration (generateInsights [] sparseTelemetry)"
  by (simp add: sparseTelemetry_def specHighRPMRatio_def specAggressiveThrottleRatio_def
      insight_eval_defs insight_defs)

text \<open>
  C2, amended: with at least one telemetry sample, the high-RPM rule fires exactly when
  the samples with a non-null RPM above 3000 are more than 0.30 of all telemetry samples,
  and the throttle rule fires exactly when the samples with a non-null throttle position
  above 80 are more than 0.20 of all telemetry samples.
\<close>

theorem insight_ratio_all_rows:
  assumes "obdData \<noteq> []"
  shows "(fired highRPMDriving (generateInsights trips obdData) \<longleftrightarrow>
            real (length (filter (\<lambda>d. \<exists>r. engineRPM d = Some r \<and> r > 3000) obdData))
              / real (length obdData) > 30 / 100)
       \<and> (fired aggressiveAcceleration (generateInsights trips obdData) \<longleftrightarrow>
            real (length (filter (\<lambda>d. \<exists>r. throttlePosition d = Some r \<and> r > 80) obdData))
              / real (length obdData) > 20 / 100)"
  using assms
  by (auto simp: insight_struct_defs highRPMCount_def aggressiveThrottleCount_def
      truthyAndGt_pos split: if_splits)

theorem insight_ratio_all_rows_witness:
  "[\<lparr>engineRPM = Some 4000, throttlePosition = None\<rparr>,
    \<lparr>engineRPM = Some 3500, throttlePosition = Some 50\<rparr>,
    \<lparr>engineRPM = None, throttlePosition = Some 90\<rparr>] \<noteq> []
   \<and> fired highRPMDriving (generateInsights []
        [\<lparr>engineRPM = Some 4000, throttlePosition = None\<rparr>,
         \<lparr>engineRPM = Some 3500, throttlePosition = Some 50\<rparr>,
         \<lparr>engineRPM = None, throttlePosition = Some 90\<rparr>])
   \<and> fired aggressiveAcceleration (generateInsights []
        [\<lparr>engineRPM = Some 4000, throttlePosition = None\<rparr>,
         \<lparr>engineRPM = Some 3500, throttlePosition = Some 50\<rparr>,
         \<lparr>engineRPM = None, throttlePosition = Some 90\<rparr>])"
  using insight_ratio_all_rows [of
      "[\<lparr>engineRPM = Some 4000, throttlePosition = None\<rparr>,
        \<lparr>engineRPM = Some 3500, throttlePosition = Some 50\<rparr>,
        \<lparr>engineRPM = None, throttlePosition = Some 90\<rparr>]" "[]"]
  by simp

text \<open>
  C7. Without trips and without telemetry the result is the single insight Good Progress,
  of kind info and priority low; and whenever rules 1 to 4 have pushed nothing, the result
  is that single insight.
\<close>

theorem insight_fallback:
  "generateInsights [] [] = [goodProgress]
   \<and> itype goodProgress = info
   \<and> title goodProgress = ''Good Progress''
   \<and> priority goodProgress = low
   \<and> (specificInsights trips obdData = [] \<longrightarrow> generateInsights trips obdData = [goodProgress])"
  by (simp add: generateInsights_def specificInsights_def fallbackRule_def obdRule_def
      ecoRule_def efficiencyRule_def goodProgress_def)

theorem insight_fallback_witness:
  "specificInsights [\<lparr>ecoScore = Some 70, efficiency = Some 8\<rparr>]
       [\<lparr>engineRPM = Some 2000, throttlePosition = Some 10\<rparr>] = []
   \<and> generateInsights [\<lparr>ecoScore = Some 70, efficiency = Some 8\<rparr>]
       [\<lparr>engineRPM = Some 2000, throttlePosition = Some 10\<rparr>] = [goodProgress]"
proof -
  have h: "specificInsights [\<lparr>ecoScore = Some 70, efficiency = Some 8\<rparr>]
       [\<lparr>engineRPM = Some 2000, throttlePosition = Some 10\<rparr>] = []"
    by (simp add: insight_eval_defs)
  from insight_fallback [of "[\<lparr>ecoScore = Some 70, efficiency = Some 8\<rparr>]"
      "[\<lparr>engineRPM = Some 2000, throttlePosition = Some 10\<rparr>]"] h
  show ?thesis by simp
qed

text \<open>
  C10. The result holds at least one and at most four insights: the low-score warning
  and the excellent-driving success never occur together, no insight occurs twice, and
  the fallback is in the result exactly when rules 1 to 4 have pushed nothing.
\<close>

theorem insight_count:
  "1 \<le> length (generateInsights trips obdData)
   \<and> length (generateInsights trips obdData) \<le> 4
   \<and> \<not> (fired lowEcoScore (generateInsights trips obdData)
         \<and> fired excellentDriving (generateInsights trips obdData))
   \<and> distinct (generateInsights trips obdData)
   \<and> (fired goodProgress (generateInsights trips obdData) \<longleftrightarrow> specificInsights trips obdData = [])"
proof (intro conjI)
  show "1 \<le> length (generateInsights trips obdData)"
    by (simp add: generateInsights_def fallbackRule_def Suc_le_eq)
  show "length (generateInsights trips obdData) \<le> 4"
    using ecoRule_cases[of trips "[]"] efficiencyRule_cases[of trips "ecoRule trips []"]
    by (auto simp: generateInsights_def specificInsights_def fallbackRule_def obdRule_eq)
  show "\<not> (fired lowEcoScore (generateInsights trips obdData)
         \<and> fired excellentDriving (generateInsights trips obdData))"
    by (auto simp: insight_struct_defs split: if_splits)
  show "distinct (generateInsights trips obdData)"
    by (auto simp: insight_struct_defs split: if_splits)
  show "fired goodProgress (generateInsights trips obdData) \<longleftrightarrow> specificInsights trips obdData = []"
    by (auto simp: insight_struct_defs split: if_splits)
qed

text \<open>
  The bound of four is reached: mean eco score 50, mean efficiency 12, 40 percent of the
  rows above 3000 RPM and 40 percent above throttle position 80.
\<close>

lemma insight_count_reached:
  "generateInsights [\<lparr>ecoScore = Some 50, efficiency = Some 12\<rparr>]
     [\<lparr>engineRPM = Some 4000, throttlePosition = Some 90\<rparr>,
      \<lparr>engineRPM = Some 4000, throttlePosition = Some 90\<rparr>,
      \<lparr>engineRPM = Some 2000, throttlePosition = Some 10\<rparr>,
      \<lparr>engineRPM = Some 2000, throttlePosition = Some 10\<rparr>,
      \<lparr>engineRPM = None, throttlePosition = None\<rparr>]
   = [lowEcoScore, highFuelConsumption, highRPMDriving, aggressiveAcceleration]"
  by (simp add: insight_eval_defs)

section \<open>Properties of the calendar\<close>

lemma year_lower_lin:
  fixes k d q1 q2 q3 :: int
  assumes "146097 * k \<le> 400 * d" "4 * q1 \<le> k" "k + 68 < 100 * q2 + 100" "400 * q3 \<le> k + 368"
  shows "365 * (k - 1) + q1 - q2 + q3 \<le> d"
proof -
  have a: "400 * q1 \<le> 100 * k" using assms(2) by simp
  have b: "4 * k + 272 < 400 * q2 + 400" using assms(3) by simp
  have "400 * (365 * (k - 1) + q1 - q2 + q3) \<le> 400 * d"
    using assms(1,4) a b by simp
  then show ?thesis by simp
qed

lemma year_upper_lin:
  fixes k d q1 q2 q3 :: int
  assumes "400 * d < 146097 * k + 146097" "k + 3 < 4 * q1 + 4" "100 * q2 \<le> k + 71"
    "k + 371 < 400 * q3 + 400"
  shows "d < 365 * (k + 2) + q1 - q2 + q3"
proof -
  have a: "100 * k + 300 < 400 * q1 + 400" using assms(2) by simp
  have b: "400 * q2 \<le> 4 * k + 284" using assms(3) by simp
  have "400 * d < 400 * (365 * (k + 2) + q1 - q2 + q3)"
    using assms(1,4) a b by simp
  then show ?thesis by simp
qed

lemma div_succ:
  fixes x c :: int
  assumes "1 < c"
  shows "(x + 1) div c = (if c dvd (x + 1) then x div c + 1 else x div c)"
proof (cases "c dvd (x + 1)")
  case True
  then obtain q where q: "x + 1 = c * q" by (auto simp: dvd_def)
  have c0: "c \<noteq> 0" using assms by simp
  have l: "(x + 1) div c = q" using c0 q by simp
  have x: "x = (c - 1) + c * (q - 1)" using q by (simp add: algebra_simps)
  have "((c - 1) + c * (q - 1)) div c = (q - 1) + (c - 1) div c"
    using c0 by (rule div_mult_self2)
  also have "(c - 1) div c = 0" using assms by (simp add: div_pos_pos_trivial)
  finally have "x div c = q - 1" using x by simp
  with l True show ?thesis by simp
next
  case False
  have c0: "c \<noteq> 0" using assms by simp
  have r: "0 \<le> x mod c" "x mod c < c" using assms by simp_all
  have "x mod c \<noteq> c - 1"
  proof
    assume "x mod c = c - 1"
    then have "(x mod c + 1) mod c = 0" by simp
    then have "(x + 1) mod c = 0" by (simp add: mod_add_left_eq)
    with False show False by auto
  qed
  with r have b: "0 \<le> x mod c + 1" "x mod c + 1 < c" by linarith+
  have "(x + 1) div c = ((x mod c + 1) + c * (x div c)) div c" by simp
  also have "\<dots> = x div c + (x mod c + 1) div c"
    using c0 by (rule div_mult_self2)
  also have "(x mod c + 1) div c = 0" using b by (simp add: div_pos_pos_trivial)
  finally have "(x + 1) div c = x div c" by simp
  with False show ?thesis by simp
qed

lemma div_bounds: fixes x c :: int assumes "0 < c" shows "c * (x div c) \<le> x" "x < c * (x div c) + c"
proof -
  have "x = c * (x div c) + x mod c" by simp
  moreover have "0 \<le> x mod c" "x mod c < c" using assms by simp_all
  ultimately show "c * (x div c) \<le> x" "x < c * (x div c) + c" by linarith+
qed

lemma DayFromYear_lower:
  fixes k d :: int
  assumes "146097 * k \<le> 400 * d"
  shows "DayFromYear (1970 + k - 1) \<le> d"
proof -
  have "DayFromYear (1970 + k - 1) = 365 * (k - 1) + k div 4 - (k + 68) div 100 + (k + 368) div 400"
    by (simp add: DayFromYear_def algebra_simps)
  also have "\<dots> \<le> d"
    by (rule year_lower_lin[OF assms div_bounds(1)[of 4 k] div_bounds(2)[of 100 "k + 68"]
          div_bounds(1)[of 400 "k + 368"]]) simp_all
  finally show ?thesis .
qed

lemma DayFromYear_upper:
  fixes k d :: int
  assumes "400 * d < 146097 * k + 146097"
  shows "d < DayFromYear (1970 + k + 2)"
proof -
  have "d < 365 * (k + 2) + (k + 3) div 4 - (k + 71) div 100 + (k + 371) div 400"
    by (rule year_upper_lin[OF assms div_bounds(2)[of 4 "k + 3"] div_bounds(1)[of 100 "k + 71"]
          div_bounds(2)[of 400 "k + 371"]]) simp_all
  also have "\<dots> = DayFromYear (1970 + k + 2)"
    by (simp add: DayFromYear_def algebra_simps)
  finally show ?thesis .
qed

lemma YearFromDay_bounds:
  "DayFromYear (YearFromDay d) \<le> d" "d < DayFromYear (YearFromDay d + 1)"
proof -
  define k where "k = (400 * d) div 146097"
  have k: "146097 * k \<le> 400 * d" "400 * d < 146097 * k + 146097"
    unfolding k_def by (rule div_bounds; simp)+
  have lo: "DayFromYear (1970 + k - 1) \<le> d" using k(1) by (rule DayFromYear_lower)
  have hi: "d < DayFromYear (1970 + k + 2)" using k(2) by (rule DayFromYear_upper)
  have y: "YearFromDay d =
     (if d < DayFromYear (1970 + k) then 1970 + k - 1
      else if DayFromYear (1970 + k + 1) \<le> d then 1970 + k + 1 else 1970 + k)"
    by (simp add: YearFromDay_def k_def Let_def)
  show "DayFromYear (YearFromDay d) \<le> d" using lo by (simp add: y)
  show "d < DayFromYear (YearFromDay d + 1)" using hi by (simp add: y add.commute add.left_commute)
qed

lemma DayFromYear_step:
  "DayFromYear (y + 1) = DayFromYear y + 365
     + (if 4 dvd y then 1 else 0) - (if 100 dvd y then 1 else 0) + (if 400 dvd y then 1 else 0)"
proof -
  have a: "(y - 1968) div 4 = (y - 1969) div 4 + (if 4 dvd y then 1 else 0)"
  proof -
    have "(4::int) dvd y - 1968 \<longleftrightarrow> 4 dvd y" by (rule dvd_diff_left_iff) simp
    with div_succ[of 4 "y - 1969"] show ?thesis by simp
  qed
  have b: "(y - 1900) div 100 = (y - 1901) div 100 + (if 100 dvd y then 1 else 0)"
  proof -
    have "(100::int) dvd y - 1900 \<longleftrightarrow> 100 dvd y" by (rule dvd_diff_left_iff) simp
    with div_succ[of 100 "y - 1901"] show ?thesis by simp
  qed
  have c: "(y - 1600) div 400 = (y - 1601) div 400 + (if 400 dvd y then 1 else 0)"
  proof -
    have "(400::int) dvd y - 1600 \<longleftrightarrow> 400 dvd y" by (rule dvd_diff_left_iff) simp
    with div_succ[of 400 "y - 1601"] show ?thesis by simp
  qed
  have "DayFromYear (y + 1) = 365 * (y - 1969) + (y - 1968) div 4 - (y - 1900) div 100 + (y - 1600) div 400"
    by (simp add: DayFromYear_def algebra_simps)
  then show ?thesis unfolding a b c by (simp add: DayFromYear_def algebra_simps)
qed

lemma DayFromYear_step_bounds:
  "DayFromYear y + 365 \<le> DayFromYear (y + 1)" "DayFromYear (y + 1) \<le> DayFromYear y + 366"
proof -
  have "(100::int) dvd y \<Longrightarrow> 4 dvd y" by (rule dvd_trans[of 4 100]) simp_all
  moreover have "(400::int) dvd y \<Longrightarrow> 100 dvd y" by (rule dvd_trans[of 100 400]) simp_all
  ultimately show "DayFromYear y + 365 \<le> DayFromYear (y + 1)" "DayFromYear (y + 1) \<le> DayFromYear y + 366"
    by (auto simp: DayFromYear_step)
qed

lemma InLeapYear_cases: "InLeapYear y = 0 \<or> InLeapYear y = 1"
  by (simp add: InLeapYear_def)

lemma DayFromYear_next: "DayFromYear (y + 1) = DayFromYear y + 365 + InLeapYear y"
  using DayFromYear_step_bounds[of y] by (auto simp: InLeapYear_def)

lemma DayFromYear_mono_aux: "y \<le> y' \<Longrightarrow> DayFromYear y + 365 * (y' - y) \<le> DayFromYear y'"
proof (induction y' rule: int_ge_induct)
  case base then show ?case by simp
next
  case (step i)
  with DayFromYear_step_bounds(1)[of i] show ?case by (simp add: algebra_simps)
qed

lemma DayFromYear_mono: "y \<le> y' \<Longrightarrow> DayFromYear y \<le> DayFromYear y'"
  using DayFromYear_mono_aux[of y y'] by simp

lemma DayFromYear_less: "y < y' \<Longrightarrow> DayFromYear y < DayFromYear y'"
  using DayFromYear_mono_aux[of y y'] by simp

lemma YearFromDay_unique:
  assumes "DayFromYear y \<le> d" "d < DayFromYear (y + 1)"
  shows "YearFromDay d = y"
proof (rule ccontr)
  assume ne: "YearFromDay d \<noteq> y"
  note b = YearFromDay_bounds[of d]
  show False
  proof (cases "YearFromDay d < y")
    case True
    then have "DayFromYear (YearFromDay d + 1) \<le> DayFromYear y" by (intro DayFromYear_mono) simp
    with b assms show False by simp
  next
    case False
    with ne have "DayFromYear (y + 1) \<le> DayFromYear (YearFromDay d)" by (intro DayFromYear_mono) simp
    with b assms show False by simp
  qed
qed

lemma YearFromDay_mono:
  assumes "d \<le> d'"
  shows "YearFromDay d \<le> YearFromDay d'"
proof (rule ccontr)
  assume "\<not> YearFromDay d \<le> YearFromDay d'"
  then have "DayFromYear (YearFromDay d' + 1) \<le> DayFromYear (YearFromDay d)"
    by (intro DayFromYear_mono) simp
  with YearFromDay_bounds(1)[of d] YearFromDay_bounds(2)[of d'] assms show False by simp
qed

lemma Day_mono: "s \<le> t \<Longrightarrow> Day s \<le> Day t"
  by (simp add: Day_def msPerDay_def zdiv_mono1)

lemma YearFromTime_mono: "s \<le> t \<Longrightarrow> YearFromTime s \<le> YearFromTime t"
  by (simp add: YearFromTime_def YearFromDay_mono Day_mono)

lemma DayWithinYear_bounds:
  "0 \<le> DayWithinYear t" "DayWithinYear t < 365 + InLeapYear (YearFromTime t)"
  using YearFromDay_bounds[of "Day t"]
  by (simp_all add: DayWithinYear_def YearFromTime_def DayFromYear_next)

lemma year_of_epoch: "YearFromTime 0 = 1970"
  by (simp add: YearFromTime_def Day_def YearFromDay_def DayFromYear_def)

lemma year_of_last: "YearFromTime 253402300799999 = 9999"
  by (simp add: YearFromTime_def Day_def msPerDay_def YearFromDay_def DayFromYear_def)

lemma year_of_first: "YearFromTime (-62167219200000) = 0"
  by (simp add: YearFromTime_def Day_def msPerDay_def YearFromDay_def DayFromYear_def)

lemma fourDigitYear_range:
  assumes "-62167219200000 \<le> t" "t \<le> 253402300799999"
  shows "fourDigitYear t"
  using YearFromTime_mono[OF assms(1)] YearFromTime_mono[OF assms(2)]
  by (simp add: fourDigitYear_def year_of_first year_of_last)

lemma monthOfDay_range: "0 \<le> monthOfDay l d" "monthOfDay l d \<le> 11"
  by (simp_all add: monthOfDay_def)

lemma monthOfDay_start:
  assumes "l = 0 \<or> l = 1" "0 \<le> d"
  shows "monthStart l (monthOfDay l d) \<le> d"
  using assms by (auto simp: monthOfDay_def monthStart_def)

lemma monthOfDay_end:
  assumes "l = 0 \<or> l = 1" "d < 365 + l"
  shows "d - monthStart l (monthOfDay l d) < 31"
  using assms by (auto simp: monthOfDay_def monthStart_def)

lemma monthOfDay_mono:
  assumes "d \<le> d'"
  shows "monthOfDay l d \<le> monthOfDay l d'"
  using assms by (auto simp: monthOfDay_def)

lemma MonthFromTime_range: "0 \<le> MonthFromTime t" "MonthFromTime t \<le> 11"
  by (simp_all add: MonthFromTime_def monthOfDay_range)

lemma DateFromTime_range: "1 \<le> DateFromTime t" "DateFromTime t \<le> 31"
  using monthOfDay_start[OF InLeapYear_cases DayWithinYear_bounds(1), of "YearFromTime t" t]
    monthOfDay_end[OF InLeapYear_cases DayWithinYear_bounds(2), of t]
  by (simp_all add: DateFromTime_def MonthFromTime_def)

lemma MakeDay_fields:
  "MakeDay (YearFromTime l) (MonthFromTime l) date = Day l - DateFromTime l + date"
proof -
  have "MonthFromTime l div 12 = 0" "MonthFromTime l mod 12 = MonthFromTime l"
    using MonthFromTime_range[of l] by (simp_all add: div_pos_pos_trivial)
  then show ?thesis
    by (simp add: MakeDay_def Let_def DateFromTime_def DayWithinYear_def)
qed

lemma Day_TimeWithinDay: "Day t * msPerDay + TimeWithinDay t = t"
  by (simp add: Day_def TimeWithinDay_def)

lemma setDate_week:
  "setDate tz t (getDate tz t - getDay tz t) = TimeClip (t - WeekDay (LocalTime tz t) * msPerDay)"
proof -
  let ?l = "LocalTime tz t"
  have "MakeDate (Day ?l - WeekDay ?l) (TimeWithinDay ?l) = ?l - WeekDay ?l * msPerDay"
    using Day_TimeWithinDay[of ?l] by (simp add: MakeDate_def algebra_simps)
  then show ?thesis
    by (simp add: setDate_def Let_def MakeDay_fields getDate_def getDay_def UTC_def LocalTime_def)
qed

lemma six_hours: "(h div 24) * 24 + ((h mod 24) div 6) * 6 = h - h mod 6" for h :: int
proof -
  have "h div 6 = (h mod 24 + 6 * (4 * (h div 24))) div 6" by simp
  also have "\<dots> = 4 * (h div 24) + (h mod 24) div 6" by (rule div_mult_self2) simp
  finally have "6 * (h div 6) = (h div 24) * 24 + ((h mod 24) div 6) * 6" by simp
  then show ?thesis by (simp add: minus_mod_eq_mult_div)
qed

lemma six_hour_floor:
  "Day l * msPerDay + (HourFromTime l div 6) * 6 * msPerHour = l - l mod (6 * msPerHour)"
proof -
  define h where "h = l div msPerHour"
  have d: "Day l = h div 24"
    by (simp add: Day_def h_def msPerDay_def msPerHour_def div_mult2_eq[symmetric])
  have "l - l mod (6 * msPerHour) = (6 * msPerHour) * (l div (6 * msPerHour))"
    by (simp add: minus_mod_eq_mult_div)
  also have "l div (6 * msPerHour) = h div 6"
    by (simp add: h_def msPerHour_def div_mult2_eq[symmetric])
  also have "(6 * msPerHour) * (h div 6) = msPerHour * (h - h mod 6)"
    by (simp add: minus_mod_eq_mult_div)
  also have "\<dots> = msPerHour * ((h div 24) * 24 + ((h mod 24) div 6) * 6)"
    by (simp only: six_hours)
  finally have e: "l - l mod (6 * msPerHour) = msPerHour * ((h div 24) * 24 + ((h mod 24) div 6) * 6)" .
  have hh: "HourFromTime l = h mod 24" by (simp add: HourFromTime_def h_def)
  have md: "msPerDay = 24 * msPerHour" by (simp add: msPerDay_def msPerHour_def)
  show ?thesis unfolding d hh md e by (simp add: algebra_simps)
qed

lemma newDateFields_six:
  assumes "\<not> (0 \<le> getFullYear tz t \<and> getFullYear tz t \<le> 99)"
  shows "newDateFields tz (getFullYear tz t) (getMonth tz t) (getDate tz t)
           ((getHours tz t div 6) * 6) = TimeClip (sixHourStart tz t)"
proof -
  let ?l = "LocalTime tz t"
  have y: "(if 0 \<le> YearFromTime ?l \<and> YearFromTime ?l \<le> 99 then 1900 + YearFromTime ?l
            else YearFromTime ?l) = YearFromTime ?l"
    using assms by (auto simp: getFullYear_def)
  show ?thesis
    using six_hour_floor[of ?l]
    by (simp add: newDateFields_def Let_def getFullYear_def getMonth_def getDate_def getHours_def
        y MakeDay_fields MakeDate_def sixHourStart_def)
qed

section \<open>Properties of the keys\<close>

lemma length_digits: "length (digits k n) = k"
  by (induction k arbitrary: n) simp_all

lemma digits_zero2: "digits 2 0 = ''00''"
  by code_simp

lemma digits_zero3: "digits 3 0 = ''000''"
  by code_simp

lemma jsSlice_take: "0 \<le> n \<Longrightarrow> jsSlice 0 n xs = take (nat n) xs"
  by (simp add: jsSlice_def relIndex_def min_def)

lemma hourStart_eq: "hourStart t = msPerHour * (t div msPerHour)"
  by (simp add: hourStart_def minus_mod_eq_mult_div)

lemma dayStart_eq: "dayStart t = msPerDay * (t div msPerDay)"
  by (simp add: dayStart_def minus_mod_eq_mult_div)

lemma Day_hourStart: "Day (hourStart t) = Day t"
proof -
  have "hourStart t div msPerDay = (hourStart t div msPerHour) div 24"
    by (simp add: msPerDay_def msPerHour_def div_mult2_eq[symmetric])
  also have "hourStart t div msPerHour = t div msPerHour"
    by (simp add: hourStart_eq msPerHour_def)
  also have "(t div msPerHour) div 24 = t div msPerDay"
    by (simp add: msPerDay_def msPerHour_def div_mult2_eq[symmetric])
  finally show ?thesis by (simp add: Day_def)
qed

lemma Hour_hourStart: "HourFromTime (hourStart t) = HourFromTime t"
  by (simp add: HourFromTime_def hourStart_eq msPerHour_def)

lemma Min_hourStart: "MinFromTime (hourStart t) = 0"
proof -
  have "hourStart t = 60000 * (60 * (t div msPerHour))" by (simp add: hourStart_eq msPerHour_def)
  then show ?thesis by (simp add: MinFromTime_def)
qed

lemma Sec_hourStart: "SecFromTime (hourStart t) = 0"
proof -
  have "hourStart t = 1000 * (3600 * (t div msPerHour))" by (simp add: hourStart_eq msPerHour_def)
  then show ?thesis by (simp add: SecFromTime_def)
qed

lemma ms_hourStart: "msFromTime (hourStart t) = 0"
  by (simp add: msFromTime_def hourStart_eq msPerHour_def)

lemma Day_dayStart: "Day (dayStart t) = Day t"
  by (simp add: Day_def dayStart_eq msPerDay_def)

lemma Hour_dayStart: "HourFromTime (dayStart t) = 0"
proof -
  have "dayStart t = msPerHour * (24 * (t div msPerDay))" by (simp add: dayStart_eq msPerHour_def msPerDay_def)
  then show ?thesis unfolding HourFromTime_def by (simp add: msPerHour_def)
qed

lemma Min_dayStart: "MinFromTime (dayStart t) = 0"
proof -
  have "dayStart t = 60000 * (1440 * (t div msPerDay))" by (simp add: dayStart_eq msPerDay_def)
  then show ?thesis by (simp add: MinFromTime_def)
qed

lemma Sec_dayStart: "SecFromTime (dayStart t) = 0"
proof -
  have "dayStart t = 1000 * (86400 * (t div msPerDay))" by (simp add: dayStart_eq msPerDay_def)
  then show ?thesis by (simp add: SecFromTime_def)
qed

lemma ms_dayStart: "msFromTime (dayStart t) = 0"
  by (simp add: msFromTime_def dayStart_eq msPerDay_def)

text \<open>The calendar fields depend on the day only.\<close>

lemma same_Day_fields:
  assumes "Day s = Day t"
  shows "YearFromTime s = YearFromTime t" "MonthFromTime s = MonthFromTime t"
    "DateFromTime s = DateFromTime t"
  using assms by (simp_all add: YearFromTime_def MonthFromTime_def DateFromTime_def DayWithinYear_def)

lemma isoString_isoDate: "isoString t = isoDate t @ ''T'' @ digits 2 (nat (HourFromTime t)) @ '':''
       @ digits 2 (nat (MinFromTime t)) @ '':'' @ digits 2 (nat (SecFromTime t)) @ ''.''
       @ digits 3 (nat (msFromTime t)) @ ''Z''"
  by (simp add: isoString_def isoDate_def)

lemma length_isoDate: "fourDigitYear t \<Longrightarrow> length (isoDate t) = 10"
  by (simp add: isoDate_def isoYear_def fourDigitYear_def length_digits)

lemma same_Day_isoDate: "Day s = Day t \<Longrightarrow> isoDate s = isoDate t"
  by (simp add: isoDate_def YearFromTime_def MonthFromTime_def DateFromTime_def DayWithinYear_def)

lemma hour_key:
  assumes "fourDigitYear t"
  shows "jsSlice 0 13 (isoString t) @ '':00:00.000Z'' = isoString (hourStart t)"
proof -
  have "take 13 (isoString t) = isoDate t @ ''T'' @ digits 2 (nat (HourFromTime t))"
    using length_isoDate[OF assms] by (simp add: isoString_isoDate length_digits)
  moreover have "isoString (hourStart t) = isoDate t @ ''T'' @ digits 2 (nat (HourFromTime t)) @ '':00:00.000Z''"
    by (simp add: isoString_isoDate same_Day_isoDate[OF Day_hourStart] Hour_hourStart Min_hourStart
        Sec_hourStart ms_hourStart digits_zero2 digits_zero3)
  ultimately show ?thesis by (simp add: jsSlice_take)
qed

lemma day_key:
  assumes "fourDigitYear t"
  shows "jsSlice 0 10 (isoString t) @ ''T00:00:00.000Z'' = isoString (dayStart t)"
proof -
  have "take 10 (isoString t) = isoDate t"
    using length_isoDate[OF assms] by (simp add: isoString_isoDate)
  moreover have "isoString (dayStart t) = isoDate t @ ''T00:00:00.000Z''"
    by (simp add: isoString_isoDate same_Day_isoDate[OF Day_dayStart] Hour_dayStart Min_dayStart
        Sec_dayStart ms_dayStart digits_zero2 digits_zero3)
  ultimately show ?thesis by (simp add: jsSlice_take)
qed



text \<open>Lexicographic order and concatenation.\<close>

lemma append_less_iff:
  fixes a b :: "'a::linorder list"
  assumes "length a = length b"
  shows "a @ x < b @ y \<longleftrightarrow> a < b \<or> (a = b \<and> x < y)"
  using assms by (induction a b rule: list_induct2) auto

lemma append_le_iff:
  fixes a b :: "'a::linorder list"
  assumes "length a = length b"
  shows "a @ x \<le> b @ y \<longleftrightarrow> a < b \<or> (a = b \<and> x \<le> y)"
  using assms by (induction a b rule: list_induct2) auto

lemma digitChar_less: "a < 10 \<Longrightarrow> b < 10 \<Longrightarrow> digitChar a < digitChar b \<longleftrightarrow> a < b"
  by (simp add: digitChar_def less_char_def)

lemma digitChar_eq: "a < 10 \<Longrightarrow> b < 10 \<Longrightarrow> digitChar a = digitChar b \<longleftrightarrow> a = b"
  using digitChar_less[of a b] digitChar_less[of b a] by (auto simp: not_less_iff_gr_or_eq)

lemma digits_eq_iff: "a < 10 ^ k \<Longrightarrow> b < 10 ^ k \<Longrightarrow> digits k a = digits k b \<longleftrightarrow> a = b"
proof (induction k arbitrary: a b)
  case 0 then show ?case by simp
next
  case (Suc k)
  have "a div 10 < 10 ^ k" "b div 10 < 10 ^ k" using Suc.prems by (simp_all add: less_mult_imp_div_less mult.commute)
  from Suc.IH[OF this] have "digits (Suc k) a = digits (Suc k) b \<longleftrightarrow> a div 10 = b div 10 \<and> a mod 10 = b mod 10"
    by (simp add: length_digits digitChar_eq)
  also have "\<dots> \<longleftrightarrow> a = b" by (metis div_mult_mod_eq)
  finally show ?case .
qed

lemma lex_radix:
  fixes q r q' r' n :: nat
  assumes "r < n" "r' < n"
  shows "n * q + r < n * q' + r' \<longleftrightarrow> q < q' \<or> (q = q' \<and> r < r')"
proof (cases "q < q'")
  case True
  then have "q + 1 \<le> q'" by simp
  then have "n * (q + 1) \<le> n * q'" by (rule mult_le_mono2)
  with assms True show ?thesis by simp
next
  case False
  show ?thesis
  proof (cases "q = q'")
    case True then show ?thesis by simp
  next
    case ne: False
    with False have "q' + 1 \<le> q" by simp
    then have "n * (q' + 1) \<le> n * q" by (rule mult_le_mono2)
    with assms False ne show ?thesis by simp
  qed
qed

lemma digits_less_iff: "a < 10 ^ k \<Longrightarrow> b < 10 ^ k \<Longrightarrow> digits k a < digits k b \<longleftrightarrow> a < b"
proof (induction k arbitrary: a b)
  case 0 then show ?case by simp
next
  case (Suc k)
  have d: "a div 10 < 10 ^ k" "b div 10 < 10 ^ k"
    using Suc.prems by (simp_all add: less_mult_imp_div_less mult.commute)
  have l: "length (digits k (a div 10)) = length (digits k (b div 10))"
    by (simp add: length_digits)
  have "digits (Suc k) a < digits (Suc k) b \<longleftrightarrow>
      digits k (a div 10) < digits k (b div 10)
      \<or> (digits k (a div 10) = digits k (b div 10) \<and> digitChar (a mod 10) < digitChar (b mod 10))"
    unfolding digits.simps append_less_iff[OF l] by simp
  also have "\<dots> \<longleftrightarrow> a div 10 < b div 10 \<or> (a div 10 = b div 10 \<and> a mod 10 < b mod 10)"
    unfolding Suc.IH[OF d] digits_eq_iff[OF d] by (simp add: digitChar_less)
  also have "\<dots> \<longleftrightarrow> 10 * (a div 10) + a mod 10 < 10 * (b div 10) + b mod 10"
    by (rule lex_radix[symmetric]) simp_all
  also have "\<dots> \<longleftrightarrow> a < b" by simp
  finally show ?case .
qed

lemma digits_le_iff: "a < 10 ^ k \<Longrightarrow> b < 10 ^ k \<Longrightarrow> digits k a \<le> digits k b \<longleftrightarrow> a \<le> b"
  unfolding list_le_def by (simp add: digits_less_iff digits_eq_iff le_less)

section \<open>Properties of the grouping loop\<close>

lemma keys_pushValue:
  "map fst (pushValue k v g) = (if k \<in> set (map fst g) then map fst g else map fst g @ [k])"
  by (induction k v g rule: pushValue.induct) (auto simp: image_iff)

lemma distinct_pushValue: "distinct (map fst g) \<Longrightarrow> distinct (map fst (pushValue k v g))"
  by (simp add: keys_pushValue)

lemma map_of_pushValue:
  "map_of (pushValue k v g) = (map_of g)(k \<mapsto> (case map_of g k of None \<Rightarrow> [v] | Some vs \<Rightarrow> vs @ [v]))"
  by (induction g) (auto simp: fun_eq_iff)

lemma total_pushValue:
  "sum_list (map (\<lambda>e. length (snd e)) (pushValue k v g)) = Suc (sum_list (map (\<lambda>e. length (snd e)) g))"
  by (induction g) auto

lemma nonempty_pushValue:
  "\<forall>e \<in> set g. snd e \<noteq> [] \<Longrightarrow> \<forall>e \<in> set (pushValue k v g). snd e \<noteq> []"
  by (induction k v g rule: pushValue.induct) (auto split: if_splits)

lemma pushAll_simps [simp]:
  "pushAll key g [] = g"
  "pushAll key g (p # ps) = pushAll key (pushValue (key (startTime p)) (metricValue p) g) ps"
  by (simp_all add: pushAll_def)


lemma forEachPoint_Inr:
  assumes "\<forall>p \<in> set ps. keyOf (startTime p) = Inr (key (startTime p))"
  shows "forEachPoint keyOf ps g = Inr (pushAll key g ps)"
  using assms by (induction ps arbitrary: g) simp_all

lemma forEachPoint_Inl:
  assumes "p \<in> set ps" "keyOf (startTime p) = Inl e"
  shows "\<exists>e'. forEachPoint keyOf ps g = Inl e'"
  using assms by (induction ps arbitrary: g) (auto split: sum.splits)

text \<open>If the loop returns, every key computation has returned.\<close>
lemma forEachPoint_keys:
  assumes "forEachPoint keyOf ps g = Inr G" "p \<in> set ps"
  shows "\<exists>k. keyOf (startTime p) = Inr k"
  using assms by (induction ps arbitrary: g) (auto split: sum.splits)


lemma keys_pushAll_set:
  "set (map fst (pushAll key g ps)) = set (map fst g) \<union> (\<lambda>p. key (startTime p)) ` set ps"
proof (induction ps arbitrary: g)
  case Nil then show ?case by simp
next
  case (Cons p ps)
  have "set (map fst (pushValue (key (startTime p)) (metricValue p) g))
        = insert (key (startTime p)) (set (map fst g))"
    by (auto simp: keys_pushValue)
  with Cons.IH[of "pushValue (key (startTime p)) (metricValue p) g"] show ?case by auto
qed

lemma distinct_pushAll: "distinct (map fst g) \<Longrightarrow> distinct (map fst (pushAll key g ps))"
  by (induction ps arbitrary: g) (simp_all add: distinct_pushValue)

lemma total_pushAll:
  "sum_list (map (\<lambda>e. length (snd e)) (pushAll key g ps))
     = sum_list (map (\<lambda>e. length (snd e)) g) + length ps"
  by (induction ps arbitrary: g) (simp_all add: total_pushValue)

lemma nonempty_pushAll:
  "\<forall>e \<in> set g. snd e \<noteq> [] \<Longrightarrow> \<forall>e \<in> set (pushAll key g ps). snd e \<noteq> []"
proof (induction ps arbitrary: g)
  case Nil then show ?case by simp
next
  case (Cons p ps)
  show ?case using Cons.IH[OF nonempty_pushValue[OF Cons.prems]] by simp
qed

lemma valuesOf_pushValue:
  "valuesOf (pushValue k v g) k' = valuesOf g k' @ (if k = k' then [v] else [])"
  by (auto simp: valuesOf_def map_of_pushValue split: option.splits)

lemma valuesOf_pushAll:
  "valuesOf (pushAll key g ps) k
     = valuesOf g k @ map metricValue (filter (\<lambda>p. key (startTime p) = k) ps)"
  by (induction ps arbitrary: g) (auto simp: valuesOf_pushValue)

lemma valuesOf_entry: "distinct (map fst g) \<Longrightarrow> (k, vs) \<in> set g \<Longrightarrow> valuesOf g k = vs"
  by (simp add: valuesOf_def)

lemma entries_pushAll:
  assumes "(k, vs) \<in> set (pushAll key [] ps)"
  shows "vs = map metricValue (filter (\<lambda>p. key (startTime p) = k) ps)"
proof -
  have "distinct (map fst (pushAll key [] ps))" by (simp add: distinct_pushAll)
  from valuesOf_entry[OF this assms] have "valuesOf (pushAll key [] ps) k = vs" .
  then show ?thesis
    by (simp add: valuesOf_pushAll) (simp add: valuesOf_def)
qed

text \<open>Order of the keys: first occurrences.\<close>

lemma keys_pushAll_sorted:
  fixes key :: "int \<Rightarrow> string"
  assumes "sorted (map fst g @ map (\<lambda>p. key (startTime p)) ps)"
  shows "sorted (map fst (pushAll key g ps))"
  using assms
proof (induction ps arbitrary: g)
  case Nil then show ?case by simp
next
  case (Cons p ps)
  let ?k = "key (startTime p)"
  have "sorted (map fst (pushValue ?k (metricValue p) g) @ map (\<lambda>p. key (startTime p)) ps)"
    using Cons.prems by (auto simp: keys_pushValue sorted_append)
  from Cons.IH[OF this] show ?case by simp
qed

lemma TimeClip_Some: "\<bar>t\<bar> \<le> 8640000000000000 \<Longrightarrow> TimeClip t = Some t"
  by (simp add: TimeClip_def)

lemma year_of_before: "YearFromTime (-62167219200001) = -1"
  by (simp add: YearFromTime_def Day_def msPerDay_def YearFromDay_def DayFromYear_def)

lemma year_of_after: "YearFromTime 253402300800000 = 10000"
  by (simp add: YearFromTime_def Day_def msPerDay_def YearFromDay_def DayFromYear_def)

lemma year_of_eve: "YearFromTime (-86400000) = 1969"
  by (simp add: YearFromTime_def Day_def msPerDay_def YearFromDay_def DayFromYear_def)

lemma fourDigitYear_bounds:
  assumes "fourDigitYear t"
  shows "-62167219200000 \<le> t" "t \<le> 253402300799999"
proof -
  show "-62167219200000 \<le> t"
  proof (rule ccontr)
    assume "\<not> -62167219200000 \<le> t"
    then have "t \<le> -62167219200001" by simp
    from YearFromTime_mono[OF this] have "YearFromTime t \<le> -1"
      by (simp add: year_of_before)
    with assms show False by (simp add: fourDigitYear_def)
  qed
  show "t \<le> 253402300799999"
  proof (rule ccontr)
    assume "\<not> t \<le> 253402300799999"
    then have "253402300800000 \<le> t" by simp
    from YearFromTime_mono[OF this] have "10000 \<le> YearFromTime t"
      by (simp add: year_of_after)
    with assms show False by (simp add: fourDigitYear_def)
  qed
qed

lemma fourDigitYear_valid: "fourDigitYear t \<Longrightarrow> newDate t = Some t"
  using fourDigitYear_bounds[of t] by (simp add: newDate_def TimeClip_def)

lemma trendKey_hour:
  assumes "fourDigitYear t"
  shows "trendKey tz ''1h'' t = Inr (isoString (hourStart t))"
  using assms by (simp add: trendKey_def fourDigitYear_valid toISOString_def hour_key)


lemma trendKey_day:
  assumes "fourDigitYear t"
  shows "trendKey tz ''1d'' t = Inr (isoString (dayStart t))"
  using assms by (simp add: trendKey_def fourDigitYear_valid toISOString_def day_key)

lemma WeekDay_range: "0 \<le> WeekDay t" "WeekDay t \<le> 6"
  by (simp_all add: WeekDay_def)

lemma trendKey_week:
  assumes "fourDigitYear t" "fourDigitYear (t - WeekDay (LocalTime tz t) * msPerDay)"
  shows "trendKey tz ''1w'' t = Inr (isoString (weekStart tz t))"
  using assms
  by (simp add: trendKey_def fourDigitYear_valid Let_def setDate_week toISOString_def
      newDate_def[symmetric] day_key weekStart_def)

lemma trendKey_six:
  assumes "fourDigitYear t" "fourDigitYear (sixHourStart tz t)"
    "\<not> (0 \<le> getFullYear tz t \<and> getFullYear tz t \<le> 99)"
  shows "trendKey tz ''6h'' t = Inr (isoString (sixHourStart tz t))"
  using assms(1,2)
  by (simp add: trendKey_def fourDigitYear_valid Let_def newDateFields_six[OF assms(3)]
      toISOString_def newDate_def[symmetric])

text \<open>Telemetry times on a host zone: all side conditions hold.\<close>

lemma telemetry_fourDigitYear: "telemetryTime t \<Longrightarrow> fourDigitYear t"
  by (rule fourDigitYear_range) (simp_all add: telemetryTime_def)

lemma sixHourStart_bounds: "sixHourStart tz t \<le> t" "t - 6 * msPerHour < sixHourStart tz t"
proof -
  have "0 \<le> LocalTime tz t mod (6 * msPerHour)" "LocalTime tz t mod (6 * msPerHour) < 6 * msPerHour"
    by (simp_all add: msPerHour_def)
  then show "sixHourStart tz t \<le> t" "t - 6 * msPerHour < sixHourStart tz t"
    by (simp_all add: sixHourStart_def UTC_def LocalTime_def)
qed

lemma telemetry_six:
  assumes "telemetryTime t"
  shows "fourDigitYear (sixHourStart tz t)"
  using sixHourStart_bounds[where tz=tz and t=t] assms
  by (intro fourDigitYear_range) (simp_all add: telemetryTime_def msPerHour_def)

lemma telemetry_week:
  assumes "telemetryTime t"
  shows "fourDigitYear (t - WeekDay (LocalTime tz t) * msPerDay)"
  using WeekDay_range[of "LocalTime tz t"] assms
  by (intro fourDigitYear_range) (simp_all add: telemetryTime_def msPerDay_def)

lemma telemetry_local_year:
  assumes "telemetryTime t" "hostZone tz"
  shows "\<not> (0 \<le> getFullYear tz t \<and> getFullYear tz t \<le> 99)"
proof -
  have "- msPerDay \<le> LocalTime tz t"
    using assms unfolding telemetryTime_def hostZone_def LocalTime_def by linarith
  then have "-86400000 \<le> LocalTime tz t" by (simp add: msPerDay_def)
  from YearFromTime_mono[OF this] have "1969 \<le> getFullYear tz t"
    by (simp add: getFullYear_def year_of_eve)
  then show ?thesis by simp
qed

lemma entryBucket_simps [simp]:
  "bucketKey (entryBucket (k, vs)) = k"
  "bucketCount (entryBucket (k, vs)) = length vs"
  "count (entryBucket (k, vs)) = Some (length vs)"
  "val (entryBucket (k, vs)) = jsDiv (reduceSumDouble vs) (Fin (real (length vs)))"
  "timestamp (entryBucket (k, vs)) = IsoKey k"
  by (simp_all add: entryBucket_def bucketKey_def bucketCount_def)

lemma bucketKey_entries: "map bucketKey (map entryBucket g) = map fst g"
  by (induction g) auto

lemma bucketCount_entries: "map bucketCount (map entryBucket g) = map (\<lambda>e. length (snd e)) g"
  by (induction g) auto

lemma filter_distinct_one:
  assumes "distinct (map f xs)" "x \<in> set xs"
  shows "length (filter (\<lambda>y. f y = f x) xs) = 1"
  using assms
proof (induction xs)
  case Nil then show ?case by simp
next
  case (Cons a xs)
  show ?case
  proof (cases "f a = f x")
    case True
    with Cons.prems have "\<forall>y \<in> set xs. f y \<noteq> f x" by (auto simp: image_iff)
    then have "filter (\<lambda>y. f y = f x) xs = []" by (simp add: filter_empty_conv)
    with True show ?thesis by simp
  next
    case False
    with Cons show ?thesis by auto
  qed
qed

text \<open>What the loop returns, in terms of the keys of the rows.\<close>

lemma forEachPoint_result:
  assumes "forEachPoint keyOf data [] = Inr g"
  shows "g = pushAll (\<lambda>t. keyString (keyOf t)) [] data"
    and "\<forall>p \<in> set data. keyOf (startTime p) = Inr (keyString (keyOf (startTime p)))"
proof -
  show k: "\<forall>p \<in> set data. keyOf (startTime p) = Inr (keyString (keyOf (startTime p)))"
  proof
    fix p assume "p \<in> set data"
    from forEachPoint_keys[OF assms this] obtain k where "keyOf (startTime p) = Inr k" ..
    then show "keyOf (startTime p) = Inr (keyString (keyOf (startTime p)))"
      by (simp add: keyString_def)
  qed
  from forEachPoint_Inr[of data keyOf "\<lambda>t. keyString (keyOf t)" "[]", OF k] assms
  show "g = pushAll (\<lambda>t. keyString (keyOf t)) [] data" by simp
qed

lemma grouping_coverage:
  assumes "forEachPoint keyOf data [] = Inr g"
  shows "sum_list (map bucketCount (map entryBucket g)) = length data"
    and "\<forall>b \<in> set (map entryBucket g). count b \<noteq> Some 0 \<and> 1 \<le> bucketCount b"
    and "distinct (map bucketKey (map entryBucket g))"
    and "\<forall>p \<in> set data.
           length (filter (\<lambda>b. Inr (bucketKey b) = keyOf (startTime p)) (map entryBucket g)) = 1"
    and "\<forall>b \<in> set (map entryBucket g).
           bucketCount b = length (filter (\<lambda>p. keyOf (startTime p) = Inr (bucketKey b)) data)
         \<and> val b = jsDiv (reduceSumDouble (map metricValue
                              (filter (\<lambda>p. keyOf (startTime p) = Inr (bucketKey b)) data)))
                            (Fin (real (bucketCount b)))"
    and "\<forall>b \<in> set (map entryBucket g). \<exists>p \<in> set data. keyOf (startTime p) = Inr (bucketKey b)"
proof -
  let ?key = "\<lambda>t. keyString (keyOf t)"
  note r = forEachPoint_result[OF assms]
  have keq: "\<And>p k. p \<in> set data \<Longrightarrow> (keyOf (startTime p) = Inr k) = (?key (startTime p) = k)"
    using r(2) by (metis sum.inject(2))
  have dist: "distinct (map fst g)" unfolding r(1) by (rule distinct_pushAll) simp
  show "sum_list (map bucketCount (map entryBucket g)) = length data"
    unfolding bucketCount_entries r(1) by (simp add: total_pushAll)
  have ne: "\<forall>e \<in> set g. snd e \<noteq> []" unfolding r(1) by (rule nonempty_pushAll) simp
  show "\<forall>b \<in> set (map entryBucket g). count b \<noteq> Some 0 \<and> 1 \<le> bucketCount b"
    using ne by (auto simp: Suc_le_eq)
  show d: "distinct (map bucketKey (map entryBucket g))"
    unfolding bucketKey_entries by (rule dist)
  have keys: "set (map fst g) = ?key ` startTime ` set data"
    unfolding r(1) keys_pushAll_set by (simp add: image_image)
  show "\<forall>p \<in> set data.
           length (filter (\<lambda>b. Inr (bucketKey b) = keyOf (startTime p)) (map entryBucket g)) = 1"
  proof
    fix p assume p: "p \<in> set data"
    then have "?key (startTime p) \<in> set (map bucketKey (map entryBucket g))"
      unfolding bucketKey_entries keys by simp
    then have "?key (startTime p) \<in> bucketKey ` set (map entryBucket g)"
      by (simp only: set_map)
    then obtain b where b: "b \<in> set (map entryBucket g)" "bucketKey b = ?key (startTime p)"
      by (auto simp only: image_iff)
    from filter_distinct_one[OF d b(1)] b(2) r(2) p
    show "length (filter (\<lambda>b. Inr (bucketKey b) = keyOf (startTime p)) (map entryBucket g)) = 1"
      by (metis (mono_tags, lifting) filter_cong sum.inject(2))
  qed
  have vals: "\<And>k vs. (k, vs) \<in> set g \<Longrightarrow>
      vs = map metricValue (filter (\<lambda>p. keyOf (startTime p) = Inr k) data)"
  proof -
    fix k vs assume "(k, vs) \<in> set g"
    then have "vs = map metricValue (filter (\<lambda>p. ?key (startTime p) = k) data)"
      unfolding r(1) by (rule entries_pushAll)
    also have "filter (\<lambda>p. ?key (startTime p) = k) data = filter (\<lambda>p. keyOf (startTime p) = Inr k) data"
      by (rule filter_cong) (simp_all add: keq)
    finally show "vs = map metricValue (filter (\<lambda>p. keyOf (startTime p) = Inr k) data)" .
  qed
  show "\<forall>b \<in> set (map entryBucket g).
           bucketCount b = length (filter (\<lambda>p. keyOf (startTime p) = Inr (bucketKey b)) data)
         \<and> val b = jsDiv (reduceSumDouble (map metricValue
                              (filter (\<lambda>p. keyOf (startTime p) = Inr (bucketKey b)) data)))
                            (Fin (real (bucketCount b)))"
  proof
    fix b assume "b \<in> set (map entryBucket g)"
    then obtain k vs where e: "(k, vs) \<in> set g" "b = entryBucket (k, vs)" by auto
    from vals[OF e(1)] show "bucketCount b = length (filter (\<lambda>p. keyOf (startTime p) = Inr (bucketKey b)) data)
         \<and> val b = jsDiv (reduceSumDouble (map metricValue
                              (filter (\<lambda>p. keyOf (startTime p) = Inr (bucketKey b)) data)))
                            (Fin (real (bucketCount b)))"
      by (simp add: e(2))
  qed
  show "\<forall>b \<in> set (map entryBucket g). \<exists>p \<in> set data. keyOf (startTime p) = Inr (bucketKey b)"
  proof
    fix b assume "b \<in> set (map entryBucket g)"
    then have "bucketKey b \<in> set (map bucketKey (map entryBucket g))" by (simp only: set_map image_eqI)
    then have "bucketKey b \<in> set (map fst g)" unfolding bucketKey_entries .
    then obtain p where "p \<in> set data" "?key (startTime p) = bucketKey b" unfolding keys by auto
    with keq show "\<exists>p \<in> set data. keyOf (startTime p) = Inr (bucketKey b)" by auto
  qed
qed

section \<open>Properties of the grouping helpers\<close>

lemma trendKey_default:
  "interval \<notin> {''1h'', ''6h'', ''1d'', ''1w''} \<Longrightarrow> trendKey tz interval t = trendKey tz ''1d'' t"
  by (auto simp: trendKey_def split: option.splits)

lemma dataKey_default:
  "interval \<notin> {''1h'', ''6h'', ''1d''} \<Longrightarrow> dataKey tz interval t = dataKey tz ''1h'' t"
  by (auto simp: dataKey_def split: option.splits)

lemma trendKey_telemetry:
  assumes "telemetryTime t" "hostZone tz" "interval \<in> {''1h'', ''6h'', ''1d'', ''1w''}"
  shows "trendKey tz interval t = Inr (isoString (keyInstant tz interval t))"
proof -
  note f = telemetry_fourDigitYear[OF assms(1)]
  consider "interval = ''1h''" | "interval = ''6h''" | "interval = ''1d''" | "interval = ''1w''"
    using assms(3) by auto
  then show ?thesis
  proof cases
    case 1 then show ?thesis by (simp add: keyInstant_def trendKey_hour[OF f])
  next
    case 2 then show ?thesis
      by (simp add: keyInstant_def
          trendKey_six[OF f telemetry_six[OF assms(1)] telemetry_local_year[OF assms(1,2)]])
  next
    case 3 then show ?thesis by (simp add: keyInstant_def trendKey_day[OF f])
  next
    case 4 then show ?thesis
      by (simp add: keyInstant_def trendKey_week[OF f telemetry_week[OF assms(1)]])
  qed
qed

lemma groupTrends_telemetry:
  assumes "\<forall>p \<in> set data. telemetryTime (startTime p)" "hostZone tz"
    "interval \<in> {''1h'', ''6h'', ''1d'', ''1w''}"
  shows "groupTrendsByInterval tz data interval
         = Inr (map entryBucket (pushAll (\<lambda>t. isoString (keyInstant tz interval t)) [] data))"
proof -
  have "\<forall>p \<in> set data. trendKey tz interval (startTime p)
          = Inr (isoString (keyInstant tz interval (startTime p)))"
    using assms by (simp add: trendKey_telemetry)
  from forEachPoint_Inr[of data "trendKey tz interval" "\<lambda>t. isoString (keyInstant tz interval t)" "[]", OF this]
  have "forEachPoint (trendKey tz interval) data []
      = Inr (pushAll (\<lambda>t. isoString (keyInstant tz interval t)) [] data)" .
  moreover have "interval \<noteq> ''raw''" using assms(3) by auto
  ultimately show ?thesis by (simp add: groupTrendsByInterval_def)
qed

lemma groupTrends_Inr:
  assumes "groupTrendsByInterval tz data interval = Inr bs" "interval \<noteq> ''raw''"
  obtains g where "forEachPoint (trendKey tz interval) data [] = Inr g" "bs = map entryBucket g"
  using assms by (auto simp: groupTrendsByInterval_def split: sum.splits)

text \<open>
  C5. For a supported interval token other than \<open>raw\<close>: on telemetry times the
  function returns; and whenever it returns, the counts of the buckets add up to the
  number of samples, no bucket has count 0, every sample's key is the key of exactly one
  bucket, and the count of a bucket is the number of samples with its key.
\<close>

theorem bucket_coverage:
  assumes "interval \<in> {''1h'', ''6h'', ''1d'', ''1w''}"
  shows "((\<forall>p \<in> set data. telemetryTime (startTime p)) \<and> hostZone tz \<longrightarrow>
            (\<exists>bs. groupTrendsByInterval tz data interval = Inr bs))
       \<and> (\<forall>bs. groupTrendsByInterval tz data interval = Inr bs \<longrightarrow>
            sum_list (map bucketCount bs) = length data
          \<and> (\<forall>b \<in> set bs. count b \<noteq> Some 0 \<and> 1 \<le> bucketCount b)
          \<and> (\<forall>p \<in> set data.
                length (filter (\<lambda>b. Inr (bucketKey b) = trendKey tz interval (startTime p)) bs) = 1)
          \<and> (\<forall>b \<in> set bs.
                bucketCount b
                = length (filter (\<lambda>p. trendKey tz interval (startTime p) = Inr (bucketKey b)) data)))"
proof (intro conjI allI impI)
  assume "(\<forall>p \<in> set data. telemetryTime (startTime p)) \<and> hostZone tz"
  then show "\<exists>bs. groupTrendsByInterval tz data interval = Inr bs"
    using groupTrends_telemetry[OF _ _ assms] by blast
next
  fix bs assume r: "groupTrendsByInterval tz data interval = Inr bs"
  have "interval \<noteq> ''raw''" using assms by auto
  from groupTrends_Inr[OF r this] obtain g
    where g: "forEachPoint (trendKey tz interval) data [] = Inr g" "bs = map entryBucket g" .
  note c = grouping_coverage[OF g(1)]
  show "sum_list (map bucketCount bs) = length data" unfolding g(2) by (rule c(1))
  show "\<forall>b \<in> set bs. count b \<noteq> Some 0 \<and> 1 \<le> bucketCount b" unfolding g(2) by (rule c(2))
  show "\<forall>p \<in> set data.
          length (filter (\<lambda>b. Inr (bucketKey b) = trendKey tz interval (startTime p)) bs) = 1"
    unfolding g(2) by (rule c(4))
  show "\<forall>b \<in> set bs.
          bucketCount b
          = length (filter (\<lambda>p. trendKey tz interval (startTime p) = Inr (bucketKey b)) data)"
    unfolding g(2) using c(5) by blast
qed

lemma threeSamples_hourly:
  "groupTrendsByInterval 0 threeSamples ''1h''
   = Inr [\<lparr>timestamp = IsoKey ''2024-01-15T10:00:00.000Z'', val = Fin 15, count = Some 2\<rparr>,
          \<lparr>timestamp = IsoKey ''2024-01-15T11:00:00.000Z'', val = Fin 40, count = Some 1\<rparr>]"
proof -
  have k: "trendKey 0 ''1h'' 1705313700000 = Inr ''2024-01-15T10:00:00.000Z''"
    "trendKey 0 ''1h'' 1705315500000 = Inr ''2024-01-15T10:00:00.000Z''"
    "trendKey 0 ''1h'' 1705317300000 = Inr ''2024-01-15T11:00:00.000Z''"
    by code_simp+
  show ?thesis
    by (simp add: groupTrendsByInterval_def threeSamples_def k entryBucket_def reduceSumDouble_def
        jsAdd_Fin jsDiv_Fin toDouble_bucket)
qed

theorem bucket_coverage_witness:
  "''1h'' \<in> {''1h'', ''6h'', ''1d'', ''1w''}
   \<and> groupTrendsByInterval 0 threeSamples ''1h''
     = Inr [\<lparr>timestamp = IsoKey ''2024-01-15T10:00:00.000Z'', val = Fin 15, count = Some 2\<rparr>,
            \<lparr>timestamp = IsoKey ''2024-01-15T11:00:00.000Z'', val = Fin 40, count = Some 1\<rparr>]
   \<and> sum_list (map bucketCount
        [\<lparr>timestamp = IsoKey ''2024-01-15T10:00:00.000Z'', val = Fin 15, count = Some 2\<rparr>,
         \<lparr>timestamp = IsoKey ''2024-01-15T11:00:00.000Z'', val = Fin 40, count = Some 1\<rparr>])
     = length threeSamples"
proof -
  have i: "''1h'' \<in> {''1h'', ''6h'', ''1d'', ''1w''}" by simp
  from bucket_coverage[OF i, of threeSamples 0] threeSamples_hourly i
  show ?thesis by simp
qed

section \<open>Unknown tokens and the raw interval\<close>

lemma dayKey_total:
  assumes "newDate t = Some d"
  shows "trendKey tz ''1d'' t = Inr (jsSlice 0 10 (isoString d) @ ''T00:00:00.000Z'')"
  using assms by (simp add: trendKey_def toISOString_def)

lemma hourKey_total:
  assumes "newDate t = Some d"
  shows "dataKey tz ''1h'' t = Inr (jsSlice 0 13 (isoString d) @ '':00:00.000Z'')"
  using assms by (simp add: dataKey_def toISOString_def)

lemma forEachPoint_total:
  assumes "\<forall>p \<in> set data. \<exists>k. keyOf (startTime p) = Inr k"
  shows "\<exists>g. forEachPoint keyOf data g0 = Inr g"
proof -
  have "\<forall>p \<in> set data. keyOf (startTime p) = Inr (keyString (keyOf (startTime p)))"
    using assms by (auto simp: keyString_def)
  from forEachPoint_Inr[of data keyOf "\<lambda>t. keyString (keyOf t)" g0, OF this] show ?thesis by blast
qed

text \<open>
  C3, as claimed: an interval token other than \<open>raw\<close>, \<open>1h\<close>, \<open>6h\<close>, \<open>1d\<close>, \<open>1w\<close>
  makes the aggregator signal an error instead of returning buckets. The token \<open>2h\<close> on
  one row of 2023-11-14T22:13:20Z returns a bucket: the day's bucket from
  \<open>groupTrendsByInterval\<close>, the hour's bucket from \<open>groupDataByInterval\<close>.
\<close>

theorem unknown_token_counterexample:
  "''2h'' \<notin> {''raw'', ''1h'', ''6h'', ''1d'', ''1w''}
   \<and> groupTrendsByInterval 0 [\<lparr>startTime = 1700000000000, metricValue = Fin 7\<rparr>] ''2h''
     = Inr [\<lparr>timestamp = IsoKey ''2023-11-14T00:00:00.000Z'', val = Fin 7, count = Some 1\<rparr>]
   \<and> groupDataByInterval 0 [\<lparr>startTime = 1700000000000, metricValue = Fin 7\<rparr>] ''2h''
     = Inr [\<lparr>timestamp = IsoKey ''2023-11-14T22:00:00.000Z'', val = Fin 7, count = Some 1\<rparr>]"
proof -
  have k: "trendKey 0 ''2h'' 1700000000000 = Inr ''2023-11-14T00:00:00.000Z''"
    "dataKey 0 ''2h'' 1700000000000 = Inr ''2023-11-14T22:00:00.000Z''"
    by code_simp+
  show ?thesis
    by (simp add: groupTrendsByInterval_def groupDataByInterval_def k entryBucket_def
        reduceSumDouble_def jsAdd_Fin jsDiv_Fin toDouble_bucket)
qed

text \<open>
  C3, amended: an interval token other than \<open>raw\<close>, \<open>1h\<close>, \<open>6h\<close>, \<open>1d\<close>, \<open>1w\<close>
  signals no error of its own: \<open>groupTrendsByInterval\<close> treats it as \<open>1d\<close> and
  \<open>groupDataByInterval\<close> treats it as \<open>1h\<close>, and both return buckets whenever every
  row's time is a valid time value.
\<close>

theorem unknown_token_default:
  assumes "interval \<notin> {''raw'', ''1h'', ''6h'', ''1d'', ''1w''}"
  shows "groupTrendsByInterval tz data interval = groupTrendsByInterval tz data ''1d''
       \<and> groupDataByInterval tz data interval = groupDataByInterval tz data ''1h''
       \<and> ((\<forall>p \<in> set data. newDate (startTime p) \<noteq> None) \<longrightarrow>
            (\<exists>bs. groupTrendsByInterval tz data interval = Inr bs)
          \<and> (\<exists>bs. groupDataByInterval tz data interval = Inr bs))"
proof (intro conjI impI)
  have t: "trendKey tz interval = trendKey tz ''1d''"
    using assms by (intro ext trendKey_default) simp
  have d: "dataKey tz interval = dataKey tz ''1h''"
    using assms by (intro ext dataKey_default) simp
  show gt: "groupTrendsByInterval tz data interval = groupTrendsByInterval tz data ''1d''"
    using assms by (simp add: groupTrendsByInterval_def t)
  show gd: "groupDataByInterval tz data interval = groupDataByInterval tz data ''1h''"
    using assms by (simp add: groupDataByInterval_def d)
  assume v: "\<forall>p \<in> set data. newDate (startTime p) \<noteq> None"
  have "\<forall>p \<in> set data. \<exists>k. trendKey tz ''1d'' (startTime p) = Inr k"
    using v dayKey_total by fastforce
  from forEachPoint_total[OF this, of "[]"]
  show "\<exists>bs. groupTrendsByInterval tz data interval = Inr bs"
    unfolding gt by (auto simp: groupTrendsByInterval_def)
  have "\<forall>p \<in> set data. \<exists>k. dataKey tz ''1h'' (startTime p) = Inr k"
    using v hourKey_total by fastforce
  from forEachPoint_total[OF this, of "[]"]
  show "\<exists>bs. groupDataByInterval tz data interval = Inr bs"
    unfolding gd by (auto simp: groupDataByInterval_def)
qed

theorem unknown_token_default_witness:
  "''2h'' \<notin> {''raw'', ''1h'', ''6h'', ''1d'', ''1w''}
   \<and> newDate 1700000000000 = Some 1700000000000
   \<and> groupTrendsByInterval 0 [\<lparr>startTime = 1700000000000, metricValue = Fin 7\<rparr>] ''2h''
     = groupTrendsByInterval 0 [\<lparr>startTime = 1700000000000, metricValue = Fin 7\<rparr>] ''1d''
   \<and> groupDataByInterval 0 [\<lparr>startTime = 1700000000000, metricValue = Fin 7\<rparr>] ''2h''
     = groupDataByInterval 0 [\<lparr>startTime = 1700000000000, metricValue = Fin 7\<rparr>] ''1h''"
proof -
  have i: "''2h'' \<notin> {''raw'', ''1h'', ''6h'', ''1d'', ''1w''}" by simp
  have v: "newDate 1700000000000 = Some 1700000000000" by (simp add: newDate_def TimeClip_def)
  from unknown_token_default[OF i, of 0 "[\<lparr>startTime = 1700000000000, metricValue = Fin 7\<rparr>]"] i v
  show ?thesis by simp
qed

text \<open>
  C4, as claimed: every bucket of the \<open>raw\<close> interval has count 1. The objects built
  for \<open>raw\<close> have the properties \<open>timestamp\<close> and \<open>value\<close> only; on one row the single
  object returned carries no count.
\<close>

theorem raw_count_counterexample:
  "groupTrendsByInterval 0 [\<lparr>startTime = 1700000000000, metricValue = Fin 7\<rparr>] ''raw''
     = Inr [\<lparr>timestamp = TimeValue 1700000000000, val = Fin 7, count = None\<rparr>]
   \<and> groupDataByInterval 0 [\<lparr>startTime = 1700000000000, metricValue = Fin 7\<rparr>] ''raw''
     = Inr [\<lparr>timestamp = TimeValue 1700000000000, val = Fin 7, count = None\<rparr>]
   \<and> count \<lparr>timestamp = TimeValue 1700000000000, val = Fin 7, count = None\<rparr> \<noteq> Some 1"
  by (simp add: groupTrendsByInterval_def groupDataByInterval_def rawBucket_def)

text \<open>
  C4, amended: for every series, the \<open>raw\<close> interval returns one object per sample, in
  input order, whose timestamp is the sample's time unchanged and whose value is the
  sample's value; the objects have no count.
\<close>

theorem raw_passthrough:
  "groupTrendsByInterval tz data ''raw'' = Inr (map rawBucket data)
   \<and> groupDataByInterval tz data ''raw'' = Inr (map rawBucket data)
   \<and> length (map rawBucket data) = length data
   \<and> map timestamp (map rawBucket data) = map (\<lambda>p. TimeValue (startTime p)) data
   \<and> map val (map rawBucket data) = map metricValue data
   \<and> map count (map rawBucket data) = replicate (length data) None"
  by (simp add: groupTrendsByInterval_def groupDataByInterval_def)
    (induction data; simp add: rawBucket_def)

section \<open>The hourly key\<close>














end
